theory Spec2Isabelle
  imports
    Main
    "HOL-Library.Word"
    "HOL-Library.Sublist"
    "HOL-Library.AList"
    "HOL-Library.Char_ord"
    "HOL-Library.List_Lexorder"
begin

unbundle bit_operations_syntax

section \<open>Data\<close>

text \<open>
  A Go byte slice is either \<open>nil\<close> or a sequence of bytes. The program tests slices
  against \<open>nil\<close> (\<open>download\<close>, \<open>copyFile\<close>, \<open>upgrade\<close>), so the two are kept apart:
  \<open>None\<close> is \<open>nil\<close>, \<open>Some []\<close> is the empty, non-nil slice that reading an empty body gives.
\<close>

type_synonym bytes = "string option"

text \<open>The bytes of a slice; \<open>nil\<close> has none. This is also the conversion \<open>string(b)\<close>.\<close>

fun content :: "bytes \<Rightarrow> string" where
  "content None = []"
| "content (Some s) = s"

text \<open>\<open>bytes.Equal\<close> compares contents: a \<open>nil\<close> slice equals an empty one.\<close>

definition bytes_Equal :: "bytes \<Rightarrow> bytes \<Rightarrow> bool" where
  "bytes_Equal a b = (content a = content b)"

text \<open>
  Every \<open>log.Fatal\<close>, \<open>log.Fatalf\<close>, \<open>os.Exit\<close> and run-time panic of the program ends the
  process. Each is a value of this type, carrying the name the message prints.
\<close>

datatype fatal =
    UsageExit
  | ScriptDoesNotExist string
  | AlreadyInstalled string
  | NotInstalled string
  | CouldNotCreateDir string
  | CouldNotDownload string
  | CouldNotReadResponse string
  | CorruptNoReadme string
  | CorruptNoScript string
  | BugNotInMemory string
  | CouldNotCreateFile string
  | CouldNotWriteFile string
  | CouldNotReadConfig string
  | LocalTreeError string
  | StatError string
  | CouldNotChmod string
  | PanicIndexOutOfRange

record githubNode =
  Mode :: string
  Type :: string
  SHA :: string
  Path :: string
  Size :: int
  Url :: string

record githubTree =
  TreeSHA :: string
  TreeUrl :: string
  Tree :: "githubNode list"

record localNode =
  ScriptName :: string
  LocalPath :: string

type_synonym localTree = "localNode list"

text \<open>
  \<open>contribScript.Files\<close> is a Go map from file name to contents. It is an association list
  with one entry per key; an assignment \<open>Files[k] = v\<close> is \<^const>\<open>AList.update\<close>. A key can
  be present with a \<open>nil\<close> value, which an index expression does not tell from a missing key.
\<close>

record contribScript =
  Name :: string
  Files :: "(string \<times> bytes) list"

definition at_key :: "(string \<times> bytes) list \<Rightarrow> string \<Rightarrow> bytes" where
  "at_key m k = (case map_of m k of None \<Rightarrow> None | Some v \<Rightarrow> v)"


section \<open>Functions of the Go library that the program calls\<close>

subsection \<open>Paths (package \<open>path/filepath\<close>, Unix)\<close>

definition slash :: char where
  "slash = CHR ''/''"

text \<open>The pieces of a string between separators; there is always at least one piece.\<close>

fun pieces :: "char \<Rightarrow> string \<Rightarrow> string list" where
  "pieces c [] = [[]]"
| "pieces c (x # xs) =
     (if x = c then [] # pieces c xs
      else (x # hd (pieces c xs)) # tl (pieces c xs))"

fun intercalate :: "string \<Rightarrow> string list \<Rightarrow> string" where
  "intercalate sep [] = []"
| "intercalate sep [x] = x"
| "intercalate sep (x # y # ys) = x @ sep @ intercalate sep (y # ys)"

text \<open>
  \<open>filepath.Clean\<close>: empty and \<open>.\<close> elements go away; a \<open>..\<close> element removes the element
  before it when there is one to remove, is dropped at the root of a rooted path, and is kept
  otherwise; the empty result is \<open>.\<close>.
\<close>

definition clean_step :: "bool \<Rightarrow> string list \<Rightarrow> string \<Rightarrow> string list" where
  "clean_step rooted st c =
     (if c = ''..'' then
        (if st \<noteq> [] \<and> last st \<noteq> ''..'' then butlast st
         else if rooted then st
         else st @ [c])
      else st @ [c])"

definition Clean :: "string \<Rightarrow> string" where
  "Clean p =
     (let rooted = (p \<noteq> [] \<and> hd p = slash);
          elems = filter (\<lambda>c. c \<noteq> [] \<and> c \<noteq> ''.'') (pieces slash p);
          st = foldl (clean_step rooted) [] elems;
          out = (if rooted then [slash] else []) @ intercalate [slash] st
      in if out = [] then ''.'' else out)"

text \<open>\<open>filepath.Split\<close>: the path up to and including its last separator, and what follows it.\<close>

definition SplitPath :: "string \<Rightarrow> string \<times> string" where
  "SplitPath p =
     (let file = rev (takeWhile (\<lambda>c. c \<noteq> slash) (rev p))
      in (take (length p - length file) p, file))"

text \<open>
  \<open>filepath.Join\<close> of two elements: from the first non-empty element on, the elements are
  joined with a separator and cleaned; with no such element the result is empty.
\<close>

definition Join :: "string \<Rightarrow> string \<Rightarrow> string" where
  "Join a b =
     (if a \<noteq> [] then Clean (a @ [slash] @ b)
      else if b \<noteq> [] then Clean b
      else [])"

text \<open>
  A proper file name, as the entries of a git tree have them: not empty, without a
  separator, and neither \<open>.\<close> nor \<open>..\<close>.
\<close>

definition plain :: "string \<Rightarrow> bool" where
  "plain a = (a \<noteq> [] \<and> slash \<notin> set a \<and> a \<noteq> ''.'' \<and> a \<noteq> ''..'')"

subsection \<open>Byte and string functions (packages \<open>bytes\<close>, \<open>strings\<close>)\<close>

text \<open>\<open>strings.Count\<close> with a separator of one byte.\<close>

definition Count :: "string \<Rightarrow> char \<Rightarrow> nat" where
  "Count s c = length (filter (\<lambda>x. x = c) s)"

text \<open>\<open>bytes.Index\<close>: where the separator first occurs.\<close>

fun Index :: "string \<Rightarrow> string \<Rightarrow> nat option" where
  "Index [] sep = (if sep = [] then Some 0 else None)"
| "Index (c # cs) sep =
     (if prefix sep (c # cs) then Some 0 else map_option Suc (Index cs sep))"

text \<open>
  \<open>bytes.Split\<close> with a non-empty separator, as at both of the program's calls: the loop of
  \<open>genSplit\<close> cuts at each occurrence found by \<open>Index\<close> and goes on behind it. The library's
  other branch, which explodes the input at an empty separator, is never reached by the
  program; the guard on the separator only stands for it.
\<close>

function genSplit :: "string \<Rightarrow> string \<Rightarrow> string list" where
  "genSplit s sep =
     (case Index s sep of
        None \<Rightarrow> [s]
      | Some m \<Rightarrow>
          if sep = [] then [s]
          else take m s # genSplit (drop (m + length sep) s) sep)"
  by pat_completeness auto
termination
proof (relation "measure (\<lambda>(s, sep). length s)")
  show "wf (measure (\<lambda>(s, sep). length s))" by simp
next
  fix s sep :: string and m :: nat
  assume "Index s sep = Some m" and "sep \<noteq> []"
  then have "s \<noteq> []" by (cases s) auto
  with \<open>sep \<noteq> []\<close>
  show "((drop (m + length sep) s, sep), (s, sep)) \<in> measure (\<lambda>(s, sep). length s)"
    by (cases s) auto
qed

declare genSplit.simps [simp del]

definition Split :: "bytes \<Rightarrow> string \<Rightarrow> string list" where
  "Split s sep = genSplit (content s) sep"

text \<open>
  \<open>bytes.TrimSpace\<close> removes leading and trailing white space as Unicode defines it. On
  UTF-8 bytes these are the six ASCII characters and the encodings of U+0085, U+00A0, U+1680,
  U+2000 to U+200A, U+2028, U+2029, U+202F, U+205F and U+3000.
\<close>

definition space_runes :: "string list" where
  "space_runes =
     [[CHR 0x09], [CHR 0x0A], [CHR 0x0B], [CHR 0x0C], [CHR 0x0D], [CHR 0x20],
      [CHR 0xC2, CHR 0x85], [CHR 0xC2, CHR 0xA0], [CHR 0xE1, CHR 0x9A, CHR 0x80],
      [CHR 0xE2, CHR 0x80, CHR 0x80], [CHR 0xE2, CHR 0x80, CHR 0x81],
      [CHR 0xE2, CHR 0x80, CHR 0x82], [CHR 0xE2, CHR 0x80, CHR 0x83],
      [CHR 0xE2, CHR 0x80, CHR 0x84], [CHR 0xE2, CHR 0x80, CHR 0x85],
      [CHR 0xE2, CHR 0x80, CHR 0x86], [CHR 0xE2, CHR 0x80, CHR 0x87],
      [CHR 0xE2, CHR 0x80, CHR 0x88], [CHR 0xE2, CHR 0x80, CHR 0x89],
      [CHR 0xE2, CHR 0x80, CHR 0x8A], [CHR 0xE2, CHR 0x80, CHR 0xA8],
      [CHR 0xE2, CHR 0x80, CHR 0xA9], [CHR 0xE2, CHR 0x80, CHR 0xAF],
      [CHR 0xE2, CHR 0x81, CHR 0x9F], [CHR 0xE3, CHR 0x80, CHR 0x80]]"

fun trimLeft :: "nat \<Rightarrow> string \<Rightarrow> string" where
  "trimLeft 0 s = s"
| "trimLeft (Suc n) s =
     (case find (\<lambda>r. prefix r s) space_runes of
        None \<Rightarrow> s
      | Some r \<Rightarrow> trimLeft n (drop (length r) s))"

fun trimRight :: "nat \<Rightarrow> string \<Rightarrow> string" where
  "trimRight 0 s = s"
| "trimRight (Suc n) s =
     (case find (\<lambda>r. suffix r s) space_runes of
        None \<Rightarrow> s
      | Some r \<Rightarrow> trimRight n (take (length s - length r) s))"

definition TrimSpace :: "string \<Rightarrow> string" where
  "TrimSpace s = (let l = trimLeft (length s) s in trimRight (length l) l)"

text \<open>
  \<open>strings.ToLower\<close> on ASCII text maps \<open>A\<close> to \<open>Z\<close> onto \<open>a\<close> to \<open>z\<close>. Bytes from 128 on
  belong to runes whose case mapping comes from the Unicode tables; they are left as they
  are here, so the function is the library's on ASCII strings only.
\<close>

definition lower_byte :: "char \<Rightarrow> char" where
  "lower_byte c =
     (let n = of_char c :: nat in if 65 \<le> n \<and> n \<le> 90 then char_of (n + 32) else c)"

definition ToLower :: "string \<Rightarrow> string" where
  "ToLower s = map lower_byte s"

text \<open>\<open>strings.Contains\<close>.\<close>

definition Contains :: "string \<Rightarrow> string \<Rightarrow> bool" where
  "Contains s sub = (Index s sub \<noteq> None)"

text \<open>\<open>strings.Replace\<close> of every newline by a fixed string.\<close>

definition ReplaceNewlines :: "string \<Rightarrow> string \<Rightarrow> string" where
  "ReplaceNewlines s new = concat (map (\<lambda>c. if c = CHR 0x0A then new else [c]) s)"

text \<open>\<open>strings.Join\<close>.\<close>

definition JoinStrings :: "string list \<Rightarrow> string \<Rightarrow> string" where
  "JoinStrings xs sep = intercalate sep xs"


section \<open>The remote catalog\<close>

text \<open>\<open>isScript\<close>: the entry's path has exactly one separator.\<close>

definition isScript :: "githubNode \<Rightarrow> bool" where
  "isScript node = (Count (Path node) slash = 1)"

text \<open>\<open>split\<close>: the cleaned directory part and the base name of the entry's path.\<close>

definition split_node :: "githubNode \<Rightarrow> string \<times> string" where
  "split_node node =
     (let (scriptName, fileName) = SplitPath (Path node)
      in (Clean scriptName, fileName))"

text \<open>
  The trees that git makes name every entry by a path of proper names; what the copying
  needs of them is that the base name of every entry is a proper name.
\<close>

definition properBaseNames :: "githubTree \<Rightarrow> bool" where
  "properBaseNames gt = list_all (\<lambda>node. plain (snd (split_node node))) (Tree gt)"

text \<open>\<open>githubTree.scriptExists\<close>: the loop returns at the first matching entry.\<close>

fun scriptExists_loop :: "githubNode list \<Rightarrow> string \<Rightarrow> bool" where
  "scriptExists_loop [] scriptName = False"
| "scriptExists_loop (node # rest) scriptName =
     (let (sname, _) = split_node node
      in if isScript node \<and> sname = scriptName then True
         else scriptExists_loop rest scriptName)"

definition scriptExists :: "githubTree \<Rightarrow> string \<Rightarrow> bool" where
  "scriptExists gt scriptName = scriptExists_loop (Tree gt) scriptName"

text \<open>
  \<open>scripts\<close>: the names of the script entries are collected as the keys of a map, the keys
  are taken out (in whatever order the run time enumerates them; here the order of first
  insertion) and sorted as strings.
\<close>

fun scripts_loop :: "githubNode list \<Rightarrow> (string \<times> bool) list \<Rightarrow> (string \<times> bool) list" where
  "scripts_loop [] snames = snames"
| "scripts_loop (node # rest) snames =
     (if isScript node
      then (let (sname, _) = split_node node
            in scripts_loop rest (AList.update sname True snames))
      else scripts_loop rest snames)"

definition Keys :: "('k \<times> 'v) list \<Rightarrow> 'k list" where
  "Keys m = map fst m"

definition scripts :: "githubTree \<Rightarrow> string list" where
  "scripts gt = sort (Keys (scripts_loop (Tree gt) []))"


section \<open>Descriptions\<close>

definition heading :: string where
  "heading = ''Description'' @ [CHR 0x0A] @ ''==========='' @ [CHR 0x0A]"

definition boundary :: string where
  "boundary = [CHR 0x0A, CHR 0x0A, CHR 0x0A]"

text \<open>
  \<open>readDescription\<close>. Both index expressions are checked by the run time; an index past the
  end of the slice panics.
\<close>

definition readDescription :: "bytes \<Rightarrow> fatal + string" where
  "readDescription readme =
     (let noDesc = Split readme heading
      in if length noDesc \<le> 1 then Inl PanicIndexOutOfRange
         else
           (let noEx = Split (Some (noDesc ! 1)) boundary
            in if length noEx \<le> 0 then Inl PanicIndexOutOfRange
               else Inr (TrimSpace (noEx ! 0))))"


section \<open>Permission bits\<close>

type_synonym FileMode = "32 word"

text \<open>\<open>FileMode.Perm\<close>: the nine Unix permission bits, octal 777.\<close>

definition Perm :: "FileMode \<Rightarrow> FileMode" where
  "Perm m = m AND 511"

text \<open>The loop of \<open>chmodx\<close>: \<open>for i := 6; i >= 0; i -= 3\<close>.\<close>

function chmodx_loop :: "int \<Rightarrow> FileMode \<Rightarrow> FileMode" where
  "chmodx_loop i perms =
     (if i \<ge> 0
      then chmodx_loop (i - 3)
             (if perms AND push_bit (nat i) 1 = 0 then perms OR push_bit (nat i) 1 else perms)
      else perms)"
  by pat_completeness auto
termination
  by (relation "measure (\<lambda>(i, perms). nat (i + 1))") auto

declare chmodx_loop.simps [simp del]

text \<open>
  The mode that \<open>chmodx\<close> hands to \<open>os.Chmod\<close> for a file whose mode is \<open>m\<close>: the
  permission bits of \<open>m\<close> after the loop.
\<close>

definition chmodx_perms :: "FileMode \<Rightarrow> FileMode" where
  "chmodx_perms m = chmodx_loop 6 (Perm m)"


section \<open>The network\<close>

text \<open>
  What \<open>http.Get\<close> on a URL gives: an error, or a response with its status code and a body
  whose reading (\<open>ioutil.ReadAll\<close>) gives the bytes or an error (\<open>None\<close>).
\<close>

datatype http_reply = GetError | Response int "string option"

type_synonym web = "string \<Rightarrow> http_reply"

definition rawPrefix :: string where
  "rawPrefix = ''https://raw.github.com/wingowm/contrib/master''"

text \<open>\<open>downloadFile\<close>: a status of 400 or above gives \<open>nil\<close>, not an error.\<close>

definition downloadFile :: "web \<Rightarrow> string \<Rightarrow> string \<Rightarrow> fatal + bytes" where
  "downloadFile w scriptName fileName =
     (let url = rawPrefix @ ''/'' @ scriptName @ ''/'' @ fileName
      in case w url of
           GetError \<Rightarrow> Inl (CouldNotDownload url)
         | Response status body \<Rightarrow>
             if status < 400 then
               (case body of
                  None \<Rightarrow> Inl (CouldNotReadResponse url)
                | Some contents \<Rightarrow> Inr (Some contents))
             else Inr None)"

definition configName :: "string \<Rightarrow> string" where
  "configName scriptName = scriptName @ ''.cfg''"

definition source :: "contribScript \<Rightarrow> bytes" where
  "source s = at_key (Files s) (Name s)"

definition config :: "contribScript \<Rightarrow> bytes" where
  "config s = at_key (Files s) (configName (Name s))"

text \<open>
  \<open>download\<close>: every entry of the tree whose directory part is the script's name is fetched
  into the map, whatever the fetch gave; then the two mandatory entries are checked.
\<close>

fun download_loop ::
  "web \<Rightarrow> string \<Rightarrow> githubNode list \<Rightarrow> (string \<times> bytes) list \<Rightarrow> fatal + (string \<times> bytes) list"
where
  "download_loop w scriptName [] files = Inr files"
| "download_loop w scriptName (node # rest) files =
     (let (sname, fname) = split_node node
      in if sname = scriptName then
           (case downloadFile w scriptName fname of
              Inl e \<Rightarrow> Inl e
            | Inr contents \<Rightarrow> download_loop w scriptName rest (AList.update fname contents files))
         else download_loop w scriptName rest files)"

definition download :: "githubTree \<Rightarrow> web \<Rightarrow> string \<Rightarrow> fatal + contribScript" where
  "download gt w scriptName =
     (case download_loop w scriptName (Tree gt) [] of
        Inl e \<Rightarrow> Inl e
      | Inr files \<Rightarrow>
          (let script = \<lparr>Name = scriptName, Files = files\<rparr>
           in if at_key (Files script) ''README.md'' = None then Inl (CorruptNoReadme scriptName)
              else if source script = None then Inl (CorruptNoScript scriptName)
              else Inr script))"


section \<open>The local file system\<close>

text \<open>
  The file system is a table from paths to files (contents and mode) and directories (mode).
  The modes are Go's \<open>FileMode\<close> values as \<open>os.Stat\<close> reports them. The nodes are taken to
  belong to the user who runs the program, and \<open>superuser\<close> says whether that user is root.
  The table \<open>refused\<close> lists the operations that the operating system turns down for reasons
  that no step of the program changes (permissions on the directories, input/output
  errors); besides these, an operation fails where the table of nodes says it must: a
  directory cannot be created where something exists or where the parent is no directory, a
  file cannot be created over a directory or without a parent directory, an existing file
  cannot be opened for writing against its own mode, nothing can be read or changed that
  does not exist.
\<close>

datatype node = File (node_contents: string) (node_mode: FileMode) | Dir (node_mode: FileMode)

datatype os_op = OpMkdir | OpCreate | OpWrite | OpStat | OpChmod | OpOpen | OpReaddir | OpReadFile

record filesystem =
  nodes :: "(string \<times> node) list"
  umask :: FileMode
  refused :: "(os_op \<times> string) list"
  superuser :: bool

definition lookup :: "filesystem \<Rightarrow> string \<Rightarrow> node option" where
  "lookup fs p = map_of (nodes fs) p"

definition refuses :: "filesystem \<Rightarrow> os_op \<Rightarrow> string \<Rightarrow> bool" where
  "refuses fs op p = ((op, p) \<in> set (refused fs))"

definition store :: "filesystem \<Rightarrow> string \<Rightarrow> node \<Rightarrow> filesystem" where
  "store fs p n = fs\<lparr>nodes := AList.update p n (nodes fs)\<rparr>"

fun is_dir :: "node option \<Rightarrow> bool" where
  "is_dir (Some (Dir m)) = True"
| "is_dir _ = False"

text \<open>The directory a path lies in (\<open>filepath.Dir\<close>).\<close>

definition parent :: "string \<Rightarrow> string" where
  "parent p = Clean (fst (SplitPath p))"

definition ModeDir :: FileMode where
  "ModeDir = push_bit 31 1"

text \<open>
  The bits of a mode that \<open>os.Chmod\<close> uses: the permission bits, \<open>ModeSetuid\<close> (bit 23),
  \<open>ModeSetgid\<close> (bit 22) and \<open>ModeSticky\<close> (bit 20).
\<close>

definition chmodMask :: FileMode where
  "chmodMask = 511 OR push_bit 23 1 OR push_bit 22 1 OR push_bit 20 1"

text \<open>\<open>os.Mkdir\<close>: the new directory gets the permission bits asked for, less the umask.\<close>

definition os_Mkdir :: "string \<Rightarrow> FileMode \<Rightarrow> filesystem \<Rightarrow> filesystem option" where
  "os_Mkdir name perm fs =
     (if refuses fs OpMkdir name \<or> lookup fs name \<noteq> None \<or> \<not> is_dir (lookup fs (parent name))
      then None
      else Some (store fs name (Dir (ModeDir OR (Perm perm AND NOT (umask fs))))))"

text \<open>
  Opening an existing file for reading and writing needs the read and the write bit of its
  owner (octal 600), unless the superuser asks.
\<close>

definition reopens :: "filesystem \<Rightarrow> FileMode \<Rightarrow> bool" where
  "reopens fs m = (superuser fs \<or> m AND 384 = 384)"

text \<open>
  \<open>os.Create\<close> opens for reading and writing, creating and truncating: an existing file
  that may be opened so is truncated and keeps its mode; a new one gets 0666 less the umask,
  whatever that leaves of the owner's bits.
\<close>

definition os_Create :: "string \<Rightarrow> filesystem \<Rightarrow> filesystem option" where
  "os_Create name fs =
     (if refuses fs OpCreate name then None
      else case lookup fs name of
             Some (File c m) \<Rightarrow> if reopens fs m then Some (store fs name (File [] m)) else None
           | Some (Dir m) \<Rightarrow> None
           | None \<Rightarrow>
               if is_dir (lookup fs (parent name))
               then Some (store fs name (File [] (438 AND NOT (umask fs))))
               else None)"

text \<open>Writing bytes to the file that was just opened under a name (\<open>io.Copy\<close> to the file).\<close>

definition os_Write :: "string \<Rightarrow> string \<Rightarrow> filesystem \<Rightarrow> filesystem option" where
  "os_Write name data fs =
     (if refuses fs OpWrite name then None
      else case lookup fs name of
             Some (File c m) \<Rightarrow> Some (store fs name (File (c @ data) m))
           | _ \<Rightarrow> None)"

text \<open>\<open>os.Stat\<close> gives the node under a path, a file or a directory.\<close>

definition os_Stat :: "string \<Rightarrow> filesystem \<Rightarrow> node option" where
  "os_Stat name fs = (if refuses fs OpStat name then None else lookup fs name)"

text \<open>\<open>os.Chmod\<close> replaces the bits of \<open>chmodMask\<close> in the node's mode and keeps the others.\<close>

definition os_Chmod :: "string \<Rightarrow> FileMode \<Rightarrow> filesystem \<Rightarrow> filesystem option" where
  "os_Chmod name m fs =
     (if refuses fs OpChmod name then None
      else case lookup fs name of
             None \<Rightarrow> None
           | Some (File c old) \<Rightarrow>
               Some (store fs name (File c ((old AND NOT chmodMask) OR (m AND chmodMask))))
           | Some (Dir old) \<Rightarrow>
               Some (store fs name (Dir ((old AND NOT chmodMask) OR (m AND chmodMask)))))"

text \<open>\<open>ioutil.ReadFile\<close>: the contents of a file; a directory cannot be read.\<close>

definition os_ReadFile :: "string \<Rightarrow> filesystem \<Rightarrow> string option" where
  "os_ReadFile name fs =
     (if refuses fs OpReadFile name then None
      else case lookup fs name of Some (File c m) \<Rightarrow> Some c | _ \<Rightarrow> None)"

text \<open>
  The entries of a directory (\<open>Readdir\<close>): the nodes of the table whose path is the
  directory's path joined with their own base name. An entry of the list \<open>nodes\<close> counts
  when it is the one that \<open>lookup\<close> finds under its path. The order is the table's.
\<close>

definition os_Readdir :: "string \<Rightarrow> filesystem \<Rightarrow> (string \<times> node) list option" where
  "os_Readdir name fs =
     (if refuses fs OpReaddir name then None
      else case lookup fs name of
             Some (Dir m) \<Rightarrow>
               Some (map (\<lambda>(p, n). (snd (SplitPath p), n))
                      (filter (\<lambda>(p, n). let base = snd (SplitPath p)
                                        in lookup fs p = Some n
                                           \<and> base \<noteq> [] \<and> base \<noteq> ''.'' \<and> base \<noteq> ''..''
                                           \<and> Join name base = p)
                         (nodes fs)))
           | _ \<Rightarrow> None)"

text \<open>
  A run of a procedure on the file system ends the process with a fatal error or returns;
  either way it leaves a file system behind.
\<close>

type_synonym 'a run = "(fatal + 'a) \<times> filesystem"

text \<open>\<open>getLocalTree\<close>: the sub-directories of the scripts directory.\<close>

definition getLocalTree :: "string \<Rightarrow> filesystem \<Rightarrow> fatal + localTree" where
  "getLocalTree cpath fs =
     (if refuses fs OpOpen cpath \<or> lookup fs cpath = None then Inl (LocalTreeError cpath)
      else case os_Readdir cpath fs of
             None \<Rightarrow> Inl (LocalTreeError cpath)
           | Some fis \<Rightarrow>
               Inr (map (\<lambda>(name, n). \<lparr>ScriptName = name, LocalPath = Join cpath name\<rparr>)
                      (filter (\<lambda>(name, n). is_dir (Some n)) fis)))"

text \<open>\<open>localTree.scriptExists\<close>.\<close>

fun localScriptExists :: "localTree \<Rightarrow> string \<Rightarrow> bool" where
  "localScriptExists [] scriptName = False"
| "localScriptExists (node # rest) scriptName =
     (if ScriptName node = scriptName then True else localScriptExists rest scriptName)"

text \<open>\<open>hasConfig\<close> and \<open>readConfig\<close>, on the path of the script's configuration file.\<close>

definition hasConfig :: "localNode \<Rightarrow> filesystem \<Rightarrow> bool" where
  "hasConfig ln fs = (os_Stat (Join (LocalPath ln) (configName (ScriptName ln))) fs \<noteq> None)"

definition readConfig :: "localNode \<Rightarrow> filesystem \<Rightarrow> fatal + bytes" where
  "readConfig ln fs =
     (let fp = Join (LocalPath ln) (configName (ScriptName ln))
      in case os_ReadFile fp fs of
           None \<Rightarrow> Inl (CouldNotReadConfig fp)
         | Some contents \<Rightarrow> Inr (Some contents))"


section \<open>Copying a script to disk\<close>

text \<open>\<open>copyFile\<close>: an entry without contents in memory ends the process before anything is created.\<close>

definition copyFile :: "contribScript \<Rightarrow> string \<Rightarrow> string \<Rightarrow> filesystem \<Rightarrow> unit run" where
  "copyFile s fileName dest fs =
     (case at_key (Files s) fileName of
        None \<Rightarrow> (Inl (BugNotInMemory fileName), fs)
      | Some contents \<Rightarrow>
          (case os_Create dest fs of
             None \<Rightarrow> (Inl (CouldNotCreateFile dest), fs)
           | Some fs1 \<Rightarrow>
               (case os_Write dest contents fs1 of
                  None \<Rightarrow> (Inl (CouldNotWriteFile dest), fs1)
                | Some fs2 \<Rightarrow> (Inr (), fs2))))"

text \<open>
  A \<open>range\<close> over a Go map visits the keys in an order that the run time chooses. The loops
  over \<open>Files\<close> take that order as the list of keys they visit; \<open>copyAll\<close> and the commands
  get it as a function \<open>ord\<close> that rearranges the keys of the map.
\<close>

fun copyAll_loop :: "contribScript \<Rightarrow> string \<Rightarrow> string list \<Rightarrow> filesystem \<Rightarrow> unit run" where
  "copyAll_loop s scriptDir [] fs = (Inr (), fs)"
| "copyAll_loop s scriptDir (fname # rest) fs =
     (case copyFile s fname (Join scriptDir fname) fs of
        (Inl e, fs') \<Rightarrow> (Inl e, fs')
      | (Inr u, fs') \<Rightarrow> copyAll_loop s scriptDir rest fs')"

definition copyAll ::
  "(string list \<Rightarrow> string list) \<Rightarrow> contribScript \<Rightarrow> string \<Rightarrow> filesystem \<Rightarrow> unit run" where
  "copyAll ord s scriptDir fs = copyAll_loop s scriptDir (ord (Keys (Files s))) fs"

text \<open>\<open>chmodx\<close>.\<close>

definition chmodx :: "string \<Rightarrow> filesystem \<Rightarrow> unit run" where
  "chmodx fpath fs =
     (case os_Stat fpath fs of
        None \<Rightarrow> (Inl (StatError fpath), fs)
      | Some fi \<Rightarrow>
          (let perms = chmodx_perms (node_mode fi)
           in case os_Chmod fpath perms fs of
                None \<Rightarrow> (Inl (CouldNotChmod fpath), fs)
              | Some fs' \<Rightarrow> (Inr (), fs')))"


section \<open>The commands\<close>

text \<open>
  The commands start from the non-flag arguments of the command line, the decoded tree of
  the remote repository (\<open>getGithubTree\<close>) and the path of the scripts directory
  (\<open>contribPath\<close>).
\<close>

definition install ::
  "(string list \<Rightarrow> string list) \<Rightarrow> string list \<Rightarrow> githubTree \<Rightarrow> web \<Rightarrow> string \<Rightarrow> filesystem \<Rightarrow> unit run"
where
  "install ord args gt w cpath fs =
     (if length args \<noteq> 1 then (Inl UsageExit, fs)
      else
        (let scriptName = args ! 0
         in case getLocalTree cpath fs of
              Inl e \<Rightarrow> (Inl e, fs)
            | Inr lt \<Rightarrow>
                if \<not> scriptExists gt scriptName then (Inl (ScriptDoesNotExist scriptName), fs)
                else if localScriptExists lt scriptName then (Inl (AlreadyInstalled scriptName), fs)
                else
                  (let scriptDir = Join cpath scriptName
                   in case os_Mkdir scriptDir 511 fs of
                        None \<Rightarrow> (Inl (CouldNotCreateDir scriptDir), fs)
                      | Some fs1 \<Rightarrow>
                          (case download gt w scriptName of
                             Inl e \<Rightarrow> (Inl e, fs1)
                           | Inr script \<Rightarrow>
                               (case copyAll ord script scriptDir fs1 of
                                  (Inl e, fs2) \<Rightarrow> (Inl e, fs2)
                                | (Inr u, fs2) \<Rightarrow> chmodx (Join scriptDir scriptName) fs2)))))"

text \<open>The loop of \<open>upgrade\<close> under \<open>--skip-config\<close>.\<close>

fun skipConfig_loop ::
  "contribScript \<Rightarrow> string \<Rightarrow> string \<Rightarrow> string list \<Rightarrow> filesystem \<Rightarrow> unit run" where
  "skipConfig_loop s scriptName scriptDir [] fs = (Inr (), fs)"
| "skipConfig_loop s scriptName scriptDir (fname # rest) fs =
     (if fname \<noteq> configName scriptName then
        (case copyFile s fname (Join scriptDir fname) fs of
           (Inl e, fs') \<Rightarrow> (Inl e, fs')
         | (Inr u, fs') \<Rightarrow> skipConfig_loop s scriptName scriptDir rest fs')
      else skipConfig_loop s scriptName scriptDir rest fs)"

text \<open>
  \<open>upgrade\<close> returns in two ways: after copying, or after printing that manual intervention
  is required, with the path of the local configuration file.
\<close>

datatype upgrade_end = Upgraded | ManualInterventionRequired string

definition upgrade ::
  "(string list \<Rightarrow> string list) \<Rightarrow> bool \<Rightarrow> string list \<Rightarrow> githubTree \<Rightarrow> web \<Rightarrow> string
     \<Rightarrow> filesystem \<Rightarrow> upgrade_end run"
where
  "upgrade ord flagSkipConfig args gt w cpath fs =
     (if length args \<noteq> 1 then (Inl UsageExit, fs)
      else
        (let scriptName = args ! 0
         in case getLocalTree cpath fs of
              Inl e \<Rightarrow> (Inl e, fs)
            | Inr lt \<Rightarrow>
                if \<not> scriptExists gt scriptName then (Inl (ScriptDoesNotExist scriptName), fs)
                else if \<not> localScriptExists lt scriptName then (Inl (NotInstalled scriptName), fs)
                else
                  (case download gt w scriptName of
                     Inl e \<Rightarrow> (Inl e, fs)
                   | Inr script \<Rightarrow>
                       (let scriptDir = Join cpath scriptName;
                            lnode = \<lparr>ScriptName = scriptName, LocalPath = scriptDir\<rparr>
                        in if flagSkipConfig then
                             (case skipConfig_loop script scriptName scriptDir
                                     (ord (Keys (Files script))) fs of
                                (Inl e, fs') \<Rightarrow> (Inl e, fs')
                              | (Inr u, fs') \<Rightarrow> (Inr Upgraded, fs'))
                           else if \<not> hasConfig lnode fs \<or> config script = None then
                             (case copyAll ord script scriptDir fs of
                                (Inl e, fs') \<Rightarrow> (Inl e, fs')
                              | (Inr u, fs') \<Rightarrow> (Inr Upgraded, fs'))
                           else
                             (case readConfig lnode fs of
                                Inl e \<Rightarrow> (Inl e, fs)
                              | Inr localConfig \<Rightarrow>
                                  if bytes_Equal localConfig (config script) then
                                    (case copyAll ord script scriptDir fs of
                                       (Inl e, fs') \<Rightarrow> (Inl e, fs')
                                     | (Inr u, fs') \<Rightarrow> (Inr Upgraded, fs'))
                                  else
                                    (Inr (ManualInterventionRequired
                                            (Join (LocalPath lnode) (configName (ScriptName lnode)))),
                                     fs))))))"

text \<open>
  \<open>search\<close>. The descriptions are fetched by \<open>fun.ParMap\<close>; a fetch or an extraction that
  fails ends the process before anything is printed (when several fail, the one that ends
  it is taken to be the first in the order of the names). The result is the list of the
  texts printed, one for each script that passes the test.
\<close>

definition dled :: "web \<Rightarrow> string \<Rightarrow> fatal + (string \<times> string)" where
  "dled w sname =
     (case downloadFile w sname ''README.md'' of
        Inl e \<Rightarrow> Inl e
      | Inr readme \<Rightarrow>
          (case readDescription readme of
             Inl e \<Rightarrow> Inl e
           | Inr desc \<Rightarrow> Inr (sname, desc)))"

fun ParMap :: "('a \<Rightarrow> fatal + 'b) \<Rightarrow> 'a list \<Rightarrow> fatal + 'b list" where
  "ParMap f [] = Inr []"
| "ParMap f (x # xs) =
     (case f x of
        Inl e \<Rightarrow> Inl e
      | Inr y \<Rightarrow> (case ParMap f xs of Inl e \<Rightarrow> Inl e | Inr ys \<Rightarrow> Inr (y # ys)))"

text \<open>\<open>fun.QuickSort\<close> with \<open>less\<close> comparing the names.\<close>

definition QuickSort :: "(string \<times> string) list \<Rightarrow> (string \<times> string) list" where
  "QuickSort xs = sort_key fst xs"

definition printed :: "string \<times> string \<Rightarrow> string" where
  "printed sc =
     fst sc @ [CHR 0x0A] @ ''    '' @ ReplaceNewlines (snd sc) ([CHR 0x0A] @ ''    '')
       @ [CHR 0x0A, CHR 0x0A]"

definition search :: "string list \<Rightarrow> githubTree \<Rightarrow> web \<Rightarrow> fatal + string list" where
  "search args gt w =
     (let query = JoinStrings args '' ''
      in case ParMap (dled w) (scripts gt) of
           Inl e \<Rightarrow> Inl e
         | Inr scs \<Rightarrow>
             Inr (map printed
                    (filter (\<lambda>sc. Contains (ToLower (snd sc)) query) (QuickSort scs))))"

text \<open>\<open>info\<close>: the result is the text printed.\<close>

definition info :: "string list \<Rightarrow> githubTree \<Rightarrow> web \<Rightarrow> fatal + string" where
  "info args gt w =
     (if length args \<noteq> 1 then Inl UsageExit
      else
        (let scriptName = args ! 0
         in if \<not> scriptExists gt scriptName then Inl (ScriptDoesNotExist scriptName)
            else
              (case downloadFile w scriptName ''README.md'' of
                 Inl e \<Rightarrow> Inl e
               | Inr readme \<Rightarrow> Inr ([CHR 0x0A] @ content readme @ [CHR 0x0A]))))"

section \<open>Inputs for the examples\<close>

text \<open>A tree with the given paths, and a server that has the listed files and nothing else.\<close>

definition entry :: "string \<Rightarrow> githubNode" where
  "entry p = \<lparr>Mode = ''100644'', Type = ''blob'', SHA = [], Path = p, Size = 0, Url = []\<rparr>"

definition tree_of :: "string list \<Rightarrow> githubTree" where
  "tree_of ps = \<lparr>TreeSHA = [], TreeUrl = [], Tree = map entry ps\<rparr>"

definition serve :: "(string \<times> string \<times> string) list \<Rightarrow> web" where
  "serve table url =
     (case map_of (map (\<lambda>(s, f, b). (rawPrefix @ ''/'' @ s @ ''/'' @ f, b)) table) url of
        Some b \<Rightarrow> Response 200 (Some b)
      | None \<Rightarrow> Response 404 (Some ''Not Found''))"

text \<open>A README whose description is \<open>Foo\<close>.\<close>

definition readme_Foo :: string where
  "readme_Foo = heading @ ''Foo'' @ boundary"


section \<open>Properties\<close>

subsection \<open>Definitions to unfold on concrete inputs\<close>

lemmas catalog_defs =
  tree_of_def entry_def scriptExists_def isScript_def Count_def split_node_def SplitPath_def
  Clean_def clean_step_def slash_def scripts_def Keys_def

lemmas fetch_defs = serve_def downloadFile_def rawPrefix_def

lemmas fs_defs =
  getLocalTree_def os_Readdir_def lookup_def refuses_def store_def os_Mkdir_def os_Create_def
  reopens_def
  os_Write_def os_Stat_def os_Chmod_def os_ReadFile_def parent_def Join_def plain_def

lemmas copy_defs =
  install_def upgrade_def copyAll_def copyFile_def chmodx_def download_def at_key_def source_def
  config_def configName_def hasConfig_def readConfig_def bytes_Equal_def

lemmas path_defs = Join_def parent_def SplitPath_def Clean_def clean_step_def slash_def

lemmas file_defs =
  copyAll_def copyFile_def at_key_def Keys_def hasConfig_def readConfig_def config_def
  configName_def bytes_Equal_def os_Stat_def os_ReadFile_def os_Create_def os_Write_def
  reopens_def lookup_def refuses_def store_def

subsection \<open>Bits of a mode\<close>

lemma or_single_bit:
  "(if (p::32 word) AND push_bit n 1 = 0 then p OR push_bit n 1 else p) = p OR push_bit n 1"
proof (cases "p AND push_bit n 1 = 0")
  case True then show ?thesis by simp
next
  case False
  have "p OR push_bit n 1 = p"
  proof (rule bit_word_eqI)
    fix k assume "k < LENGTH(32)"
    show "bit (p OR push_bit n 1) k = bit p k"
    proof (cases "bit p n")
      case True then show ?thesis by (auto simp: bit_simps)
    next
      case nb: False
      have "p AND push_bit n 1 = 0"
        by (rule bit_word_eqI) (use nb in \<open>auto simp: bit_simps\<close>)
      with False show ?thesis by simp
    qed
  qed
  with False show ?thesis by simp
qed

lemma chmodx_loop_6: "chmodx_loop 6 p = p OR 73"
proof -
  have stop: "chmodx_loop (-3) q = q" for q by (subst chmodx_loop.simps) simp
  have "chmodx_loop 0 q = q OR 1" for q
    by (subst chmodx_loop.simps) (simp only: or_single_bit, simp add: stop)
  then have "chmodx_loop 3 q = q OR 9" for q
    by (subst chmodx_loop.simps) (simp only: or_single_bit, simp add: or.assoc)
  then show ?thesis
    by (subst chmodx_loop.simps) (simp only: or_single_bit, simp add: or.assoc)
qed

subsection \<open>The file table\<close>

lemma lookup_store: "lookup (store fs p n) q = (if q = p then Some n else lookup fs q)"
  by (simp add: lookup_def store_def update_conv')

lemma refuses_store [simp]: "refuses (store fs p n) op q = refuses fs op q"
  by (simp add: refuses_def store_def)

subsection \<open>The mode after \<open>chmodx\<close>\<close>

lemma chmod_perm_bits:
  "Perm ((m AND NOT chmodMask) OR ((Perm m OR 73) AND chmodMask)) = Perm m OR 73"
proof -
  have a: "chmodMask AND 511 = 511" by (simp add: chmodMask_def)
  have b: "NOT chmodMask AND (511 :: FileMode) = 0" by (simp add: chmodMask_def)
  have c: "(73 :: FileMode) AND 511 = 73" by simp
  have "((m AND NOT chmodMask) OR ((m AND 511 OR 73) AND chmodMask)) AND 511
        = (m AND (NOT chmodMask AND 511)) OR ((m AND 511 OR 73) AND (chmodMask AND 511))"
    by (simp only: bit.conj_disj_distrib2 and.assoc)
  also have "\<dots> = (m AND 511 OR 73) AND 511" by (simp only: a b) simp
  also have "\<dots> = m AND 511 OR 73" by (simp add: bit.conj_disj_distrib2 and.assoc)
  finally show ?thesis by (simp add: Perm_def)
qed

lemma perm_rw: "Perm m' = Perm m OR 73 \<Longrightarrow> m' AND 438 = m AND 438"
proof -
  assume h: "Perm m' = Perm m OR 73"
  have "m' AND 438 = Perm m' AND 438" by (simp add: Perm_def and.assoc)
  also have "\<dots> = (Perm m OR 73) AND 438" by (simp add: h)
  also have "\<dots> = m AND 438" by (simp add: Perm_def bit.conj_disj_distrib2 and.assoc)
  finally show ?thesis .
qed

lemma perm_x: "Perm m' = Perm m OR 73 \<Longrightarrow> m' AND 73 = 73"
proof -
  assume h: "Perm m' = Perm m OR 73"
  have "m' AND 73 = Perm m' AND 73" by (simp add: Perm_def and.assoc)
  also have "\<dots> = (Perm m OR 73) AND 73" by (simp add: h)
  also have "\<dots> = 73" by (simp add: bit.conj_disj_distrib2)
  finally show ?thesis .
qed

text \<open>
  C6. The executable-bit step is additive. The mode that \<open>chmodx\<close> computes from a mode \<open>m\<close>
  is the permission bits of \<open>m\<close> with the execute bits of owner, group and other (octal 111)
  set. When \<open>chmodx\<close> returns on a file of mode \<open>m\<close>, the file has the same contents and a
  mode with these permission bits; its read and write bits (octal 666) are those of \<open>m\<close>.
\<close>

theorem chmodx_additive:
  assumes "lookup fs fpath = Some (File c m)"
    and "chmodx fpath fs = (Inr (), fs')"
  shows "chmodx_perms m = Perm m OR 73
       \<and> (\<exists>m'. lookup fs' fpath = Some (File c m')
             \<and> Perm m' = Perm m OR 73 \<and> m' AND 438 = m AND 438 \<and> m' AND 73 = 73)"
proof -
  let ?m' = "(m AND NOT chmodMask) OR ((Perm m OR 73) AND chmodMask)"
  have perms: "chmodx_perms m = Perm m OR 73" by (simp add: chmodx_perms_def chmodx_loop_6)
  from assms have "fs' = store fs fpath (File c ?m')"
    by (auto simp: chmodx_def perms os_Stat_def os_Chmod_def Let_def split: if_splits)
  then have "lookup fs' fpath = Some (File c ?m')" by (simp add: lookup_store)
  moreover have "Perm ?m' = Perm m OR 73" by (rule chmod_perm_bits)
  ultimately show ?thesis using perms perm_rw perm_x by blast
qed

theorem chmodx_additive_witness:
  "lookup \<lparr>nodes = [(''/s/a/a'', File ''x'' 416)], umask = 18, refused = [], superuser = False\<rparr> ''/s/a/a'' = Some (File ''x'' 416)
   \<and> chmodx ''/s/a/a'' \<lparr>nodes = [(''/s/a/a'', File ''x'' 416)], umask = 18, refused = [], superuser = False\<rparr>
       = (Inr (), \<lparr>nodes = [(''/s/a/a'', File ''x'' 489)], umask = 18, refused = [], superuser = False\<rparr>)
   \<and> chmodx_perms 416 = 489"
proof -
  have a: "lookup \<lparr>nodes = [(''/s/a/a'', File ''x'' 416)], umask = 18, refused = [], superuser = False\<rparr> ''/s/a/a'' = Some (File ''x'' 416)"
    by (simp add: lookup_def)
  have b: "chmodx ''/s/a/a'' \<lparr>nodes = [(''/s/a/a'', File ''x'' 416)], umask = 18, refused = [], superuser = False\<rparr>
       = (Inr (), \<lparr>nodes = [(''/s/a/a'', File ''x'' 489)], umask = 18, refused = [], superuser = False\<rparr>)"
    by (simp add: chmodx_def chmodx_perms_def os_Stat_def os_Chmod_def chmodx_loop_6 lookup_def
        refuses_def store_def
        Perm_def chmodMask_def)
  from chmodx_additive [OF a b] a b show ?thesis by (simp add: Perm_def)
qed

subsection \<open>The names of the scripts\<close>

lemma Keys_update: "Keys (AList.update k v al) = (if k \<in> set (Keys al) then Keys al else Keys al @ [k])"
  by (simp add: Keys_def update_keys)

lemma scripts_loop_keys:
  "set (Keys (scripts_loop ns acc))
     = set (Keys acc) \<union> {fst (split_node n) | n. n \<in> set ns \<and> isScript n}"
proof (induction ns arbitrary: acc)
  case Nil
  then show ?case by simp
next
  case (Cons n ns)
  show ?case
  proof (cases "isScript n")
    case True
    then have "scripts_loop (n # ns) acc = scripts_loop ns (AList.update (fst (split_node n)) True acc)"
      by (simp add: split_def)
    then show ?thesis using True by (auto simp: Cons.IH Keys_update)
  next
    case False
    then show ?thesis by (auto simp: Cons.IH)
  qed
qed

lemma scripts_loop_distinct:
  "distinct (Keys acc) \<Longrightarrow> distinct (Keys (scripts_loop ns acc))"
  by (induction ns arbitrary: acc) (auto simp: Keys_update split_def)

text \<open>The order in which the keys come out of the map does not matter to the sorted list.\<close>

lemma scripts_any_key_order:
  assumes "distinct ks" and "set ks = set (Keys (scripts_loop (Tree gt) []))"
  shows "sort ks = scripts gt"
proof -
  have "distinct (Keys (scripts_loop (Tree gt) []))"
    by (rule scripts_loop_distinct) (simp add: Keys_def)
  with assms show ?thesis
    unfolding scripts_def by (intro sorted_distinct_set_unique) simp_all
qed

text \<open>
  C9. The listing of script names is ascending in the order of strings, has no duplicates,
  and holds exactly the names that \<open>split\<close> derives from the entries whose path has exactly
  one separator; \<open>isScript\<close> holds of exactly these entries.
\<close>

theorem scripts_sorted_distinct_exact:
  "sorted (scripts gt) \<and> distinct (scripts gt)
   \<and> set (scripts gt) = {fst (split_node n) | n. n \<in> set (Tree gt) \<and> Count (Path n) slash = 1}
   \<and> (\<forall>n. isScript n = (Count (Path n) slash = 1))"
proof -
  have "distinct (Keys (scripts_loop (Tree gt) []))"
    by (rule scripts_loop_distinct) (simp add: Keys_def)
  then have "distinct (scripts gt)" by (simp add: scripts_def)
  moreover have "sorted (scripts gt)" by (simp add: scripts_def)
  moreover have "set (scripts gt) = {fst (split_node n) | n. n \<in> set (Tree gt) \<and> Count (Path n) slash = 1}"
  proof -
    have "set (scripts gt) = set (Keys (scripts_loop (Tree gt) []))" by (simp add: scripts_def)
    also have "\<dots> = {fst (split_node n) | n. n \<in> set (Tree gt) \<and> isScript n}"
      by (simp only: scripts_loop_keys) (simp add: Keys_def)
    finally show ?thesis by (simp add: isScript_def)
  qed
  ultimately show ?thesis by (simp add: isScript_def)
qed

subsection \<open>Occurrences of a separator\<close>

lemma Index_SomeD:
  "Index s sep = Some k \<Longrightarrow> prefix sep (drop k s) \<and> k \<le> length s"
proof (induction s arbitrary: k)
  case Nil
  then show ?case by (simp split: if_splits)
next
  case (Cons c cs)
  then show ?case by (cases "prefix sep (c # cs)") auto
qed

lemma Index_Some_least:
  "Index s sep = Some k \<Longrightarrow> j < k \<Longrightarrow> \<not> prefix sep (drop j s)"
proof (induction s arbitrary: k j)
  case Nil
  then show ?case by (simp split: if_splits)
next
  case (Cons c cs)
  show ?case
  proof (cases "prefix sep (c # cs)")
    case True
    with Cons.prems show ?thesis by simp
  next
    case False
    with Cons.prems obtain k' where k': "Index cs sep = Some k'" "k = Suc k'" by auto
    show ?thesis
    proof (cases j)
      case 0
      with False show ?thesis by simp
    next
      case (Suc j')
      with Cons.prems k' have "j' < k'" by simp
      from Cons.IH [OF k'(1) this] Suc show ?thesis by simp
    qed
  qed
qed

lemma Index_SomeI:
  "prefix sep (drop k s) \<Longrightarrow> k \<le> length s \<Longrightarrow> (\<And>j. j < k \<Longrightarrow> \<not> prefix sep (drop j s))
     \<Longrightarrow> Index s sep = Some k"
proof (induction s arbitrary: k)
  case Nil
  then show ?case by simp
next
  case (Cons c cs)
  show ?case
  proof (cases k)
    case 0
    with Cons.prems show ?thesis by simp
  next
    case (Suc k')
    have "\<not> prefix sep (c # cs)" using Cons.prems(3) [of 0] Suc by simp
    moreover have "Index cs sep = Some k'"
    proof (rule Cons.IH)
      show "prefix sep (drop k' cs)" using Cons.prems(1) Suc by simp
      show "k' \<le> length cs" using Cons.prems(2) Suc by simp
      show "\<not> prefix sep (drop j cs)" if "j < k'" for j
        using Cons.prems(3) [of "Suc j"] that Suc by simp
    qed
    ultimately show ?thesis using Suc by simp
  qed
qed

lemma Index_take:
  assumes "Index s sep = Some k" and "k + length sep \<le> m"
  shows "Index (take m s) sep = Some k"
proof (rule Index_SomeI)
  from assms(1) have p: "prefix sep (drop k s)" and k: "k \<le> length s"
    by (auto dest: Index_SomeD)
  have d: "drop j (take m s) = take (m - j) (drop j s)" for j by (simp add: drop_take)
  from p obtain r where r: "drop k s = sep @ r" by (auto simp: prefix_def)
  from assms(2) have "length sep \<le> m - k" by simp
  then show "prefix sep (drop k (take m s))" by (simp add: d r)
  from k assms(2) show "k \<le> length (take m s)" by simp
  show "\<not> prefix sep (drop j (take m s))" if "j < k" for j
  proof
    assume "prefix sep (drop j (take m s))"
    then have "prefix sep (take (m - j) (drop j s))" by (simp add: d)
    moreover have "prefix (take (m - j) (drop j s)) (drop j s)" by (rule take_is_prefix)
    ultimately have "prefix sep (drop j s)" by (rule prefix_order.trans)
    with Index_Some_least [OF assms(1) that] show False by simp
  qed
qed

lemma genSplit_Some:
  "Index s sep = Some m \<Longrightarrow> sep \<noteq> []
     \<Longrightarrow> genSplit s sep = take m s # genSplit (drop (m + length sep) s) sep"
  by (subst genSplit.simps) simp

lemma genSplit_None: "Index s sep = None \<Longrightarrow> genSplit s sep = [s]"
  by (subst genSplit.simps) simp

lemma genSplit_hd:
  "sep \<noteq> [] \<Longrightarrow>
   \<exists>rest. genSplit s sep = (case Index s sep of None \<Rightarrow> s | Some m \<Rightarrow> take m s) # rest"
  by (cases "Index s sep") (simp_all add: genSplit_None genSplit_Some)

subsection \<open>The description of a README\<close>

lemma heading_not_Nil: "heading \<noteq> []"
  by (simp add: heading_def)

lemma boundary_not_Nil: "boundary \<noteq> []"
  by (simp add: boundary_def)

lemma heading_not_in_boundary:
  assumes "prefix heading (drop j (boundary @ post))"
  shows "3 \<le> j"
proof (rule ccontr)
  assume "\<not> 3 \<le> j"
  then consider "j = 0" | "j = 1" | "j = 2" by linarith
  then show False using assms
    by cases (simp_all add: boundary_def heading_def)
qed

lemma readDescription_cut:
  assumes first_heading: "Index (pre @ heading @ rest) heading = Some (length pre)"
    and first_boundary: "Index r1 boundary = Some (length t)"
    and r1: "hd (genSplit rest heading) = r1"
    and t: "take (length t) r1 = t"
  shows "readDescription (Some (pre @ heading @ rest)) = Inr (TrimSpace t)"
proof -
  obtain more where more: "genSplit rest heading = r1 # more"
    using genSplit_hd [OF heading_not_Nil, of rest] r1 by auto
  have "genSplit (pre @ heading @ rest) heading = pre # genSplit rest heading"
    using genSplit_Some [OF first_heading heading_not_Nil] by simp
  then have noDesc: "Split (Some (pre @ heading @ rest)) heading = pre # r1 # more"
    by (simp add: Split_def more)
  have noEx: "Split (Some r1) boundary
                = t # genSplit (drop (length t + length boundary) r1) boundary"
    using genSplit_Some [OF first_boundary boundary_not_Nil] t by (simp add: Split_def)
  show ?thesis
    by (simp add: readDescription_def noDesc noEx)
qed

text \<open>
  C7, as amended. The README is \<open>pre\<close>, the heading, \<open>t\<close>, the boundary of three newlines
  and \<open>post\<close>, where the heading occurs first after \<open>pre\<close> and the boundary occurs first
  after \<open>t\<close>. When the heading does not occur again before that boundary,
  \<open>readDescription\<close> returns \<open>t\<close> trimmed.
\<close>

theorem readDescription_between:
  assumes first_heading: "Index (pre @ heading @ t @ boundary @ post) heading = Some (length pre)"
    and first_boundary: "Index (t @ boundary @ post) boundary = Some (length t)"
    and no_heading_before:
      "case Index (t @ boundary @ post) heading of None \<Rightarrow> True | Some m \<Rightarrow> length t \<le> m"
  shows "readDescription (Some (pre @ heading @ t @ boundary @ post)) = Inr (TrimSpace t)"
proof (cases "Index (t @ boundary @ post) heading")
  case None
  then have "hd (genSplit (t @ boundary @ post) heading) = t @ boundary @ post"
    by (simp add: genSplit_None)
  with first_heading first_boundary show ?thesis
    by (intro readDescription_cut [where ?r1.0 = "t @ boundary @ post"]) simp_all
next
  case (Some m)
  with no_heading_before have m: "length t \<le> m" by simp
  from Some have "prefix heading (drop m (t @ boundary @ post))"
    by (auto dest: Index_SomeD)
  with m have "prefix heading (drop (m - length t) (boundary @ post))" by simp
  then have "3 \<le> m - length t" by (rule heading_not_in_boundary)
  with m have m3: "length t + length boundary \<le> m" by (simp add: boundary_def)
  have "hd (genSplit (t @ boundary @ post) heading) = take m (t @ boundary @ post)"
    using Some by (simp add: genSplit_Some heading_not_Nil)
  moreover have "Index (take m (t @ boundary @ post)) boundary = Some (length t)"
    using first_boundary m3 by (rule Index_take)
  moreover have "take (length t) (take m (t @ boundary @ post)) = t"
    using m by (simp add: min_def)
  ultimately show ?thesis using first_heading
    by (intro readDescription_cut [where ?r1.0 = "take m (t @ boundary @ post)"]) simp_all
qed

theorem readDescription_between_witness:
  "Index (''# foo'' @ heading @ '' Moves windows. '' @ boundary @ ''Usage'') heading = Some (length ''# foo'')
   \<and> Index ('' Moves windows. '' @ boundary @ ''Usage'') boundary = Some (length '' Moves windows. '')
   \<and> (case Index ('' Moves windows. '' @ boundary @ ''Usage'') heading of
         None \<Rightarrow> True | Some m \<Rightarrow> length '' Moves windows. '' \<le> m)
   \<and> readDescription (Some (''# foo'' @ heading @ '' Moves windows. '' @ boundary @ ''Usage''))
       = Inr ''Moves windows.''"
proof -
  have a: "Index (''# foo'' @ heading @ '' Moves windows. '' @ boundary @ ''Usage'') heading = Some (length ''# foo'')"
    by (simp add: heading_def boundary_def)
  have b: "Index ('' Moves windows. '' @ boundary @ ''Usage'') boundary = Some (length '' Moves windows. '')"
    by (simp add: heading_def boundary_def)
  have c: "case Index ('' Moves windows. '' @ boundary @ ''Usage'') heading of
         None \<Rightarrow> True | Some m \<Rightarrow> length '' Moves windows. '' \<le> m"
    by (simp add: heading_def boundary_def)
  have d: "TrimSpace '' Moves windows. '' = ''Moves windows.''"
    by (simp add: TrimSpace_def space_runes_def suffix_to_prefix)
  from readDescription_between [OF a b c] a b c d show ?thesis by simp
qed

text \<open>
  C7 as it stands fails when the heading occurs a second time before the boundary: the
  description is then cut at the second heading.
\<close>

theorem readDescription_second_heading:
  "Index (heading @ (''a '' @ heading @ ''b'') @ boundary @ []) heading = Some (length ([] :: string))
   \<and> Index ((''a '' @ heading @ ''b'') @ boundary @ []) boundary = Some (length (''a '' @ heading @ ''b''))
   \<and> readDescription (Some (heading @ (''a '' @ heading @ ''b'') @ boundary @ [])) = Inr ''a''
   \<and> TrimSpace (''a '' @ heading @ ''b'') \<noteq> ''a''"
  by (simp add: readDescription_def Split_def genSplit.simps heading_def boundary_def
      TrimSpace_def space_runes_def suffix_to_prefix)

text \<open>Without the heading there is one piece only, and the index 1 is out of range.\<close>

lemma readDescription_no_heading:
  "Index (content readme) heading = None \<Longrightarrow> readDescription readme = Inl PanicIndexOutOfRange"
  by (simp add: readDescription_def Split_def genSplit_None)

text \<open>
  C2. A README without the heading makes \<open>readDescription\<close> panic; so does the \<open>nil\<close> that
  \<open>downloadFile\<close> returns for a file that is absent.
\<close>

theorem readDescription_without_heading:
  "readDescription (Some (''# foo'' @ [CHR 0x0A] @ ''Moves windows.'' @ [CHR 0x0A]))
     = Inl PanicIndexOutOfRange
   \<and> readDescription None = Inl PanicIndexOutOfRange"
  by (simp add: readDescription_def Split_def genSplit.simps heading_def)

subsection \<open>The commands that only read\<close>

text \<open>
  C10. For a script of the catalog, \<open>info\<close> returns normally whatever status the fetch of
  the README has: below 400 it prints the body between two newlines, from 400 on it prints
  the two newlines with nothing between them.
\<close>

theorem info_prints_fetch:
  assumes "scriptExists gt S"
    and "w (rawPrefix @ ''/'' @ S @ ''/'' @ ''README.md'') = Response status b"
  shows "(400 \<le> status \<longrightarrow> info [S] gt w = Inr [CHR 0x0A, CHR 0x0A])
       \<and> (\<forall>body. status < 400 \<and> b = Some body \<longrightarrow> info [S] gt w = Inr ([CHR 0x0A] @ body @ [CHR 0x0A]))"
  using assms by (simp add: info_def downloadFile_def)

theorem info_prints_fetch_witness:
  "scriptExists (tree_of [''a/README.md'', ''a/a'']) ''a''
   \<and> serve [] (rawPrefix @ ''/'' @ ''a'' @ ''/'' @ ''README.md'') = Response 404 (Some ''Not Found'')
   \<and> serve [(''a'', ''README.md'', ''hi'')] (rawPrefix @ ''/'' @ ''a'' @ ''/'' @ ''README.md'') = Response 200 (Some ''hi'')
   \<and> info [''a''] (tree_of [''a/README.md'', ''a/a'']) (serve []) = Inr [CHR 0x0A, CHR 0x0A]
   \<and> info [''a''] (tree_of [''a/README.md'', ''a/a'']) (serve [(''a'', ''README.md'', ''hi'')])
        = Inr ([CHR 0x0A] @ ''hi'' @ [CHR 0x0A])"
proof -
  have a: "scriptExists (tree_of [''a/README.md'', ''a/a'']) ''a''"
    by (simp add: catalog_defs)
  have b: "serve [] (rawPrefix @ ''/'' @ ''a'' @ ''/'' @ ''README.md'') = Response 404 (Some ''Not Found'')"
    by (simp add: fetch_defs)
  have c: "serve [(''a'', ''README.md'', ''hi'')] (rawPrefix @ ''/'' @ ''a'' @ ''/'' @ ''README.md'') = Response 200 (Some ''hi'')"
    by (simp add: fetch_defs)
  from info_prints_fetch [of "tree_of [''a/README.md'', ''a/a'']" "''a''" "serve []", OF a b]
    info_prints_fetch [of "tree_of [''a/README.md'', ''a/a'']" "''a''"
      "serve [(''a'', ''README.md'', ''hi'')]", OF a c] a b c
  show ?thesis by simp
qed

text \<open>
  C3. The description is put in lower case and the query is not: a query with a capital
  letter finds nothing, also where the description holds it letter for letter.
\<close>

theorem search_capital_query:
  "dled (serve [(''a'', ''README.md'', readme_Foo)]) ''a'' = Inr (''a'', ''Foo'')
   \<and> Contains ''Foo'' ''Foo''
   \<and> search [''Foo''] (tree_of [''a/README.md'', ''a/a''])
        (serve [(''a'', ''README.md'', readme_Foo)]) = Inr []
   \<and> search [''foo''] (tree_of [''a/README.md'', ''a/a''])
        (serve [(''a'', ''README.md'', readme_Foo)]) = Inr [printed (''a'', ''Foo'')]"
proof -
  have d: "dled (serve [(''a'', ''README.md'', readme_Foo)]) ''a'' = Inr (''a'', ''Foo'')"
    by (simp add: dled_def fetch_defs readme_Foo_def readDescription_def Split_def genSplit.simps heading_def
        boundary_def TrimSpace_def space_runes_def suffix_to_prefix)
  have s: "scripts (tree_of [''a/README.md'', ''a/a'']) = [''a'']"
    by (simp add: catalog_defs)
  have l: "ToLower ''Foo'' = ''foo''"
    by code_simp
  show ?thesis
    by (simp add: search_def s d l QuickSort_def Contains_def JoinStrings_def)
qed

subsection \<open>Joining a directory and a proper file name\<close>

lemma pieces_not_Nil: "pieces c s \<noteq> []"
  by (induction s) auto

lemma pieces_no_sep: "c \<notin> set a \<Longrightarrow> pieces c a = [a]"
  by (induction a) auto

lemma pieces_append_sep: "pieces c (xs @ c # ys) = pieces c xs @ pieces c ys"
proof (induction xs)
  case Nil
  then show ?case by simp
next
  case (Cons x xs)
  then show ?case
    using pieces_not_Nil [of c xs] by (cases "pieces c xs") auto
qed

lemma intercalate_snoc:
  "intercalate sep (xs @ [a]) = (if xs = [] then a else intercalate sep xs @ sep @ a)"
  by (induction sep xs rule: intercalate.induct) auto

lemma Clean_plain: "plain a \<Longrightarrow> Clean a = a"
proof -
  assume "plain a"
  then have a: "a \<noteq> []" "slash \<notin> set a" "a \<noteq> ''.''" "a \<noteq> ''..''"
    by (simp_all add: plain_def)
  then have "hd a \<noteq> slash" by (cases a) auto
  with a show ?thesis
    by (simp add: Clean_def Let_def pieces_no_sep clean_step_def)
qed

lemma Join_plain_prefix: "\<exists>pre. \<forall>a. plain a \<longrightarrow> Join d a = pre @ a"
proof (cases "d = []")
  case True
  then have "\<forall>a. plain a \<longrightarrow> Join d a = [] @ a"
    by (auto simp: Join_def Clean_plain plain_def)
  then show ?thesis by blast
next
  case False
  let ?P = "\<lambda>c. c \<noteq> [] \<and> c \<noteq> ''.''"
  let ?r = "hd d = slash"
  let ?st = "foldl (clean_step ?r) [] (filter ?P (pieces slash d))"
  let ?pre = "(if ?r then [slash] else []) @ (if ?st = [] then [] else intercalate [slash] ?st @ [slash])"
  have "Join d a = ?pre @ a" if "plain a" for a
  proof -
    from that have a: "a \<noteq> []" "slash \<notin> set a" "a \<noteq> ''.''" "a \<noteq> ''..''"
      by (simp_all add: plain_def)
    have r: "(d @ slash # a \<noteq> [] \<and> hd (d @ slash # a) = slash) = ?r"
      using False by simp
    have "filter ?P (pieces slash (d @ slash # a)) = filter ?P (pieces slash d) @ [a]"
      using a by (simp add: pieces_append_sep pieces_no_sep)
    then have st: "foldl (clean_step ?r) [] (filter ?P (pieces slash (d @ slash # a))) = ?st @ [a]"
      using a by (simp add: clean_step_def)
    have "Clean (d @ slash # a) = ?pre @ a"
      unfolding Clean_def Let_def r st intercalate_snoc using a by simp
    with False show ?thesis by (simp add: Join_def)
  qed
  then show ?thesis by blast
qed

lemma Join_inj: "plain a \<Longrightarrow> plain b \<Longrightarrow> Join d a = Join d b \<Longrightarrow> a = b"
  using Join_plain_prefix [of d] by auto

lemma plain_configName: "slash \<notin> set S \<Longrightarrow> plain (configName S)"
  by (auto simp: plain_def configName_def slash_def)

subsection \<open>Copying one file\<close>

lemma store_store: "store (store fs p a) p b = store fs p b"
  by (simp add: store_def)

lemma store_same: "lookup fs p = Some n \<Longrightarrow> store fs p n = fs"
  by (simp add: store_def lookup_def update_triv)

lemma refused_store [simp]: "refused (store fs p n) = refused fs"
  by (simp add: store_def)

lemma env_store [simp]: "umask (store fs p n) = umask fs" "superuser (store fs p n) = superuser fs"
  by (simp_all add: store_def)

lemma reopens_store [simp]: "reopens (store fs p n) m = reopens fs m"
  by (simp add: reopens_def)

lemma copyFile_Inr:
  assumes "copyFile s f dest fs = (Inr u, fs')"
  shows "\<exists>c m. at_key (Files s) f = Some c \<and> fs' = store fs dest (File c m)
           \<and> \<not> refuses fs OpCreate dest \<and> \<not> refuses fs OpWrite dest
           \<and> (reopens fs m \<or> m = 438 AND NOT (umask fs))"
  using assms
  by (auto simp: copyFile_def os_Create_def os_Write_def lookup_store store_store
      split: option.splits if_splits node.splits)

lemma copyFile_frame:
  assumes "copyFile s f dest fs = (r, fs')"
  shows "refused fs' = refused fs"
    and "q \<noteq> dest \<Longrightarrow> lookup fs' q = lookup fs q"
    and "is_dir (lookup fs q) \<Longrightarrow> lookup fs' q = lookup fs q"
  using assms
  by (auto simp: copyFile_def os_Create_def os_Write_def lookup_store
      split: option.splits if_splits node.splits)

lemma copyFile_env:
  assumes "copyFile s f dest fs = (r, fs')"
  shows "umask fs' = umask fs" and "superuser fs' = superuser fs"
  using assms
  by (auto simp: copyFile_def os_Create_def os_Write_def
      split: option.splits if_splits node.splits)

text \<open>
  Copying a file over itself leaves the file system as it is, whether the file can be
  opened again or not.
\<close>

lemma copyFile_rerun:
  assumes "lookup fs dest = Some (File c m)" and "at_key (Files s) f = Some c"
    and "\<not> refuses fs OpCreate dest" and "\<not> refuses fs OpWrite dest"
  shows "copyFile s f dest fs
           = (if reopens fs m then Inr () else Inl (CouldNotCreateFile dest), fs)"
proof -
  have "store fs dest (File c m) = fs" using assms(1) by (rule store_same)
  with assms show ?thesis
    by (simp add: copyFile_def os_Create_def os_Write_def lookup_store store_store)
qed

lemma copyFile_absent: "at_key (Files s) f = None \<Longrightarrow> copyFile s f dest fs = (Inl (BugNotInMemory f), fs)"
  by (simp add: copyFile_def)

subsection \<open>Copying the files of a script\<close>

lemma refuses_cong: "refused fs' = refused fs \<Longrightarrow> refuses fs' op p = refuses fs op p"
  by (simp add: refuses_def)

lemma copyAll_loop_Cons:
  "copyFile s k (Join dir k) fs = (r1, fs1) \<Longrightarrow>
   copyAll_loop s dir (k # ks) fs
     = (case r1 of Inl e \<Rightarrow> (Inl e, fs1) | Inr u \<Rightarrow> copyAll_loop s dir ks fs1)"
  by (simp split: sum.splits)

lemma copyAll_loop_frame_all:
  "copyAll_loop s dir ks fs = (r, fs') \<Longrightarrow>
   refused fs' = refused fs
   \<and> (\<forall>q. (\<forall>k \<in> set ks. Join dir k \<noteq> q) \<longrightarrow> lookup fs' q = lookup fs q)
   \<and> (\<forall>q. is_dir (lookup fs q) \<longrightarrow> lookup fs' q = lookup fs q)"
proof (induction ks arbitrary: fs)
  case Nil
  then show ?case by simp
next
  case (Cons k ks)
  obtain r1 fs1 where c: "copyFile s k (Join dir k) fs = (r1, fs1)"
    by (cases "copyFile s k (Join dir k) fs")
  note f = copyFile_frame [OF c]
  note step = copyAll_loop_Cons [OF c, of ks]
  show ?case
  proof (cases r1)
    case (Inl e)
    with Cons.prems step have "fs' = fs1" by simp
    with f show ?thesis by auto
  next
    case (Inr u)
    with Cons.prems step have "copyAll_loop s dir ks fs1 = (r, fs')" by simp
    from Cons.IH [OF this] f show ?thesis by auto
  qed
qed

lemma copyAll_loop_frame:
  assumes "copyAll_loop s dir ks fs = (r, fs')"
  shows "refused fs' = refused fs"
    and "(\<And>k. k \<in> set ks \<Longrightarrow> Join dir k \<noteq> q) \<Longrightarrow> lookup fs' q = lookup fs q"
    and "is_dir (lookup fs q) \<Longrightarrow> lookup fs' q = lookup fs q"
  using copyAll_loop_frame_all [OF assms] by auto

lemma copyAll_loop_env:
  "copyAll_loop s dir ks fs = (r, fs') \<Longrightarrow> umask fs' = umask fs \<and> superuser fs' = superuser fs"
proof (induction ks arbitrary: fs)
  case Nil
  then show ?case by simp
next
  case (Cons k ks)
  obtain r1 fs1 where c: "copyFile s k (Join dir k) fs = (r1, fs1)"
    by (cases "copyFile s k (Join dir k) fs")
  note e = copyFile_env [OF c]
  note step = copyAll_loop_Cons [OF c, of ks]
  show ?case
  proof (cases r1)
    case (Inl e')
    with Cons.prems step have "fs' = fs1" by simp
    with e show ?thesis by simp
  next
    case (Inr u)
    with Cons.prems step have "copyAll_loop s dir ks fs1 = (r, fs')" by simp
    from Cons.IH [OF this] e show ?thesis by simp
  qed
qed

text \<open>
  After a loop that has completed, every file it visited has the bundle's contents, and a
  mode under which it was opened or the mode of a new file.
\<close>

lemma copyAll_loop_Inr:
  assumes "copyAll_loop s dir ks fs = (Inr u, fs')"
    and "inj_on (Join dir) (set ks)"
    and "k \<in> set ks"
  shows "\<exists>c m. at_key (Files s) k = Some c \<and> lookup fs' (Join dir k) = Some (File c m)
           \<and> \<not> refuses fs OpCreate (Join dir k) \<and> \<not> refuses fs OpWrite (Join dir k)
           \<and> (reopens fs m \<or> m = 438 AND NOT (umask fs))"
  using assms
proof (induction ks arbitrary: fs)
  case Nil
  then show ?case by simp
next
  case (Cons h ks)
  obtain r1 fs1 where c: "copyFile s h (Join dir h) fs = (r1, fs1)" by (cases "copyFile s h (Join dir h) fs")
  note step = copyAll_loop_Cons [OF c, of ks]
  with Cons.prems(1) obtain u1 where r1: "r1 = Inr u1" by (cases r1) auto
  with step Cons.prems(1) have rest: "copyAll_loop s dir ks fs1 = (Inr u, fs')" by simp
  from Cons.prems(2) have inj: "inj_on (Join dir) (set ks)" by (simp add: inj_on_def)
  have ref: "refused fs1 = refused fs" using copyFile_frame(1) [OF c] .
  have env: "umask fs1 = umask fs" "superuser fs1 = superuser fs" using copyFile_env [OF c] .
  show ?case
  proof (cases "k \<in> set ks")
    case True
    from Cons.IH [OF rest inj True] ref env show ?thesis by (simp add: refuses_def reopens_def)
  next
    case False
    with Cons.prems(3) have kh: "k = h" by simp
    from copyFile_Inr [OF c [unfolded r1]] obtain c0 m where
      c0: "at_key (Files s) h = Some c0" "fs1 = store fs (Join dir h) (File c0 m)"
        "\<not> refuses fs OpCreate (Join dir h)" "\<not> refuses fs OpWrite (Join dir h)"
        "reopens fs m \<or> m = 438 AND NOT (umask fs)" by blast
    have "\<And>k'. k' \<in> set ks \<Longrightarrow> Join dir k' \<noteq> Join dir h"
      using Cons.prems(2) False kh by (auto simp: inj_on_def)
    from copyAll_loop_frame(2) [OF rest this]
    have "lookup fs' (Join dir h) = lookup fs1 (Join dir h)" by simp
    with c0 kh show ?thesis by (simp add: lookup_store)
  qed
qed

text \<open>
  A loop over files that are on disk with the bundle's contents leaves the file system as
  it is; it completes when each of them can be opened again.
\<close>

lemma copyAll_loop_rerun:
  assumes "\<And>k. k \<in> set ks \<Longrightarrow>
             \<exists>c m. at_key (Files s) k = Some c \<and> lookup fs (Join dir k) = Some (File c m)
               \<and> \<not> refuses fs OpCreate (Join dir k) \<and> \<not> refuses fs OpWrite (Join dir k)
               \<and> (ok \<longrightarrow> reopens fs m)"
  shows "\<exists>r. copyAll_loop s dir ks fs = (r, fs) \<and> (ok \<longrightarrow> r = Inr ())"
  using assms
proof (induction ks)
  case Nil
  then show ?case by simp
next
  case (Cons h ks)
  from Cons.prems [of h] obtain c m where h:
    "at_key (Files s) h = Some c" "lookup fs (Join dir h) = Some (File c m)"
    "\<not> refuses fs OpCreate (Join dir h)" "\<not> refuses fs OpWrite (Join dir h)"
    "ok \<longrightarrow> reopens fs m" by auto
  note one = copyFile_rerun [OF h(2) h(1) h(3) h(4)]
  have "\<exists>r. copyAll_loop s dir ks fs = (r, fs) \<and> (ok \<longrightarrow> r = Inr ())"
    using Cons.prems by (intro Cons.IH) auto
  then obtain r where rest: "copyAll_loop s dir ks fs = (r, fs)" "ok \<longrightarrow> r = Inr ()" by blast
  show ?case
  proof (cases "reopens fs m")
    case True
    with one rest show ?thesis by simp
  next
    case False
    with one h(5) show ?thesis by simp
  qed
qed

lemma copyAll_loop_absent:
  assumes "k \<in> set ks" and "at_key (Files s) k = None"
  shows "\<exists>e fs'. copyAll_loop s dir ks fs = (Inl e, fs')"
  using assms
proof (induction ks arbitrary: fs)
  case Nil
  then show ?case by simp
next
  case (Cons h ks)
  obtain r1 fs1 where c: "copyFile s h (Join dir h) fs = (r1, fs1)" by (cases "copyFile s h (Join dir h) fs")
  show ?case
  proof (cases r1)
    case (Inl e)
    with copyAll_loop_Cons [OF c, of ks] show ?thesis by simp
  next
    case (Inr u)
    with c Cons.prems copyFile_absent [of s h "Join dir h" fs] have "k \<in> set ks" by auto
    from Cons.IH [OF this Cons.prems(2), of fs1] copyAll_loop_Cons [OF c, of ks] Inr
    show ?thesis by simp
  qed
qed

lemma skipConfig_loop_filter:
  "skipConfig_loop s S dir ks fs = copyAll_loop s dir (filter (\<lambda>k. k \<noteq> configName S) ks) fs"
  by (induction ks arbitrary: fs) (auto split: prod.splits sum.splits)

subsection \<open>The local tree\<close>

lemma localScriptExists_iff: "localScriptExists lt S = (S \<in> ScriptName ` set lt)"
  by (induction lt) auto

lemma getLocalTree_exists:
  assumes "getLocalTree cpath fs = Inr lt"
  shows "localScriptExists lt S
           = (S \<noteq> [] \<and> S \<noteq> ''.'' \<and> S \<noteq> ''..'' \<and> snd (SplitPath (Join cpath S)) = S
              \<and> is_dir (lookup fs (Join cpath S)))"
proof -
  let ?ok = "\<lambda>(p, n). let base = snd (SplitPath p)
               in lookup fs p = Some n \<and> base \<noteq> [] \<and> base \<noteq> ''.'' \<and> base \<noteq> ''..''
                  \<and> Join cpath base = p"
  let ?fis = "map (\<lambda>(p, n). (snd (SplitPath p), n)) (filter ?ok (nodes fs))"
  from assms have lt:
    "lt = map (\<lambda>(name, n). \<lparr>ScriptName = name, LocalPath = Join cpath name\<rparr>)
            (filter (\<lambda>(name, n). is_dir (Some n)) ?fis)"
    by (auto simp: getLocalTree_def os_Readdir_def split: if_splits option.splits node.splits)
  have "S \<in> ScriptName ` set lt
          \<longleftrightarrow> (\<exists>p n. (p, n) \<in> set (nodes fs) \<and> ?ok (p, n) \<and> is_dir (Some n) \<and> snd (SplitPath p) = S)"
    unfolding lt by (force simp: image_iff)
  also have "\<dots> \<longleftrightarrow> (S \<noteq> [] \<and> S \<noteq> ''.'' \<and> S \<noteq> ''..'' \<and> snd (SplitPath (Join cpath S)) = S
              \<and> is_dir (lookup fs (Join cpath S)))"
  proof
    assume "\<exists>p n. (p, n) \<in> set (nodes fs) \<and> ?ok (p, n) \<and> is_dir (Some n) \<and> snd (SplitPath p) = S"
    then show "S \<noteq> [] \<and> S \<noteq> ''.'' \<and> S \<noteq> ''..'' \<and> snd (SplitPath (Join cpath S)) = S
              \<and> is_dir (lookup fs (Join cpath S))"
      by (auto simp: Let_def)
  next
    assume r: "S \<noteq> [] \<and> S \<noteq> ''.'' \<and> S \<noteq> ''..'' \<and> snd (SplitPath (Join cpath S)) = S
              \<and> is_dir (lookup fs (Join cpath S))"
    then obtain n where n: "lookup fs (Join cpath S) = Some n" "is_dir (Some n)"
      by (cases "lookup fs (Join cpath S)") auto
    then have "(Join cpath S, n) \<in> set (nodes fs)" by (auto simp: lookup_def dest: map_of_SomeD)
    with r n show "\<exists>p n. (p, n) \<in> set (nodes fs) \<and> ?ok (p, n) \<and> is_dir (Some n) \<and> snd (SplitPath p) = S"
      by (intro exI [of _ "Join cpath S"] exI [of _ n]) (simp add: Let_def)
  qed
  finally show ?thesis by (simp add: localScriptExists_iff)
qed

lemma getLocalTree_Inr_iff:
  "(\<exists>lt. getLocalTree cpath fs = Inr lt)
     = (\<not> refuses fs OpOpen cpath \<and> \<not> refuses fs OpReaddir cpath \<and> is_dir (lookup fs cpath))"
  by (auto simp: getLocalTree_def os_Readdir_def split: option.splits node.splits)

lemma SplitPath_base_no_slash: "slash \<notin> set (snd (SplitPath p))"
  by (auto simp: SplitPath_def Let_def dest: set_takeWhileD)

lemma installed_name_no_slash:
  assumes "getLocalTree cpath fs = Inr lt" and "localScriptExists lt S"
  shows "slash \<notin> set S"
proof -
  from assms have "snd (SplitPath (Join cpath S)) = S"
    by (simp add: getLocalTree_exists)
  with SplitPath_base_no_slash [of "Join cpath S"] show ?thesis by simp
qed

text \<open>
  C5. A script that the catalog does not have makes \<open>install\<close> and \<open>upgrade\<close> end fatally
  with the file system as it was; so does \<open>install\<close> of a catalog script that is installed,
  and \<open>upgrade\<close> of a catalog script that is not installed.
\<close>

theorem install_upgrade_refusals:
  "(\<not> scriptExists gt S \<longrightarrow>
      (\<exists>e. install ord [S] gt w cpath fs = (Inl e, fs))
      \<and> (\<exists>e. upgrade ord skip [S] gt w cpath fs = (Inl e, fs)))
   \<and> (scriptExists gt S \<and> getLocalTree cpath fs = Inr lt \<and> localScriptExists lt S \<longrightarrow>
        install ord [S] gt w cpath fs = (Inl (AlreadyInstalled S), fs))
   \<and> (scriptExists gt S \<and> getLocalTree cpath fs = Inr lt \<and> \<not> localScriptExists lt S \<longrightarrow>
        upgrade ord skip [S] gt w cpath fs = (Inl (NotInstalled S), fs))
   \<and> (scriptExists gt S \<and> getLocalTree cpath fs = Inl e' \<longrightarrow>
        install ord [S] gt w cpath fs = (Inl e', fs)
        \<and> upgrade ord skip [S] gt w cpath fs = (Inl e', fs))"
  by (auto simp: install_def upgrade_def split: sum.splits)

theorem install_upgrade_refusals_witness:
  "\<not> scriptExists (tree_of [''a/README.md'', ''a/a'']) ''b''
   \<and> install id [''b''] (tree_of [''a/README.md'', ''a/a'']) (serve [])  ''/s''
        \<lparr>nodes = [(''/s'', Dir 493)], umask = 18, refused = [], superuser = False\<rparr>
       = (Inl (ScriptDoesNotExist ''b''), \<lparr>nodes = [(''/s'', Dir 493)], umask = 18, refused = [], superuser = False\<rparr>)
   \<and> upgrade id True [''b''] (tree_of [''a/README.md'', ''a/a'']) (serve [])  ''/s''
        \<lparr>nodes = [(''/s'', Dir 493)], umask = 18, refused = [], superuser = False\<rparr>
       = (Inl (ScriptDoesNotExist ''b''), \<lparr>nodes = [(''/s'', Dir 493)], umask = 18, refused = [], superuser = False\<rparr>)
   \<and> scriptExists (tree_of [''a/README.md'', ''a/a'']) ''a''
   \<and> getLocalTree ''/s'' \<lparr>nodes = [(''/s'', Dir 493), (''/s/a'', Dir 493)], umask = 18, refused = [], superuser = False\<rparr>
       = Inr [\<lparr>ScriptName = ''a'', LocalPath = ''/s/a''\<rparr>]
   \<and> install id [''a''] (tree_of [''a/README.md'', ''a/a'']) (serve [])  ''/s''
        \<lparr>nodes = [(''/s'', Dir 493), (''/s/a'', Dir 493)], umask = 18, refused = [], superuser = False\<rparr>
       = (Inl (AlreadyInstalled ''a''),
          \<lparr>nodes = [(''/s'', Dir 493), (''/s/a'', Dir 493)], umask = 18, refused = [], superuser = False\<rparr>)
   \<and> getLocalTree ''/s'' \<lparr>nodes = [(''/s'', Dir 493)], umask = 18, refused = [], superuser = False\<rparr> = Inr []
   \<and> upgrade id False [''a''] (tree_of [''a/README.md'', ''a/a'']) (serve [])  ''/s''
        \<lparr>nodes = [(''/s'', Dir 493)], umask = 18, refused = [], superuser = False\<rparr>
       = (Inl (NotInstalled ''a''), \<lparr>nodes = [(''/s'', Dir 493)], umask = 18, refused = [], superuser = False\<rparr>)
   \<and> getLocalTree ''/s'' \<lparr>nodes = [], umask = 18, refused = [], superuser = False\<rparr> = Inl (LocalTreeError ''/s'')
   \<and> install id [''a''] (tree_of [''a/README.md'', ''a/a'']) (serve [])  ''/s''
        \<lparr>nodes = [], umask = 18, refused = [], superuser = False\<rparr>
       = (Inl (LocalTreeError ''/s''), \<lparr>nodes = [], umask = 18, refused = [], superuser = False\<rparr>)"
proof -
  let ?gt = "tree_of [''a/README.md'', ''a/a'']"
  let ?fsa = "\<lparr>nodes = [(''/s'', Dir 493)], umask = 18, refused = [], superuser = False\<rparr>"
  let ?fsb = "\<lparr>nodes = [(''/s'', Dir 493), (''/s/a'', Dir 493)], umask = 18, refused = [], superuser = False\<rparr>"
  let ?fsc = "\<lparr>nodes = [], umask = 18, refused = [], superuser = False\<rparr> :: filesystem"
  have nb: "\<not> scriptExists ?gt ''b''" by (simp add: catalog_defs)
  have a: "scriptExists ?gt ''a''" by (simp add: catalog_defs)
  have l0: "getLocalTree ''/s'' ?fsa = Inr []"
    by (simp add: fs_defs SplitPath_def Clean_def clean_step_def slash_def)
  have l1: "getLocalTree ''/s'' ?fsb = Inr [\<lparr>ScriptName = ''a'', LocalPath = ''/s/a''\<rparr>]"
    by (simp add: fs_defs SplitPath_def Clean_def clean_step_def slash_def)
  have l2: "getLocalTree ''/s'' ?fsc = Inl (LocalTreeError ''/s'')"
    by (simp add: fs_defs)
  note t0 = install_upgrade_refusals [of ?gt "''b''" id "serve []" "''/s''" ?fsa True]
  note t1 = install_upgrade_refusals [of ?gt "''a''" id "serve []" "''/s''" ?fsb False
      "[\<lparr>ScriptName = ''a'', LocalPath = ''/s/a''\<rparr>]"]
  note t2 = install_upgrade_refusals [of ?gt "''a''" id "serve []" "''/s''" ?fsa False "[]"]
  note t3 = install_upgrade_refusals [of ?gt "''a''" id "serve []" "''/s''" ?fsc False _ "LocalTreeError ''/s''"]
  have i0: "install id [''b''] ?gt (serve []) ''/s'' ?fsa = (Inl (ScriptDoesNotExist ''b''), ?fsa)"
    using t0 nb l0 by (auto simp: install_def)
  have u0: "upgrade id True [''b''] ?gt (serve []) ''/s'' ?fsa = (Inl (ScriptDoesNotExist ''b''), ?fsa)"
    using t0 nb l0 by (auto simp: upgrade_def)
  from nb a l0 l1 l2 i0 u0 t1 t2 t3 show ?thesis by simp
qed

subsection \<open>The bundle that \<open>download\<close> builds\<close>

lemma download_loop_Cons:
  "split_node n = (sname, fname) \<Longrightarrow>
   download_loop w S (n # ns) acc =
     (if sname = S then
        (case downloadFile w S fname of
           Inl e \<Rightarrow> Inl e
         | Inr b \<Rightarrow> download_loop w S ns (AList.update fname b acc))
      else download_loop w S ns acc)"
  by simp

lemma download_loop_files:
  "download_loop w S ns acc = Inr files \<Longrightarrow>
   map_of files f =
     (if \<exists>n \<in> set ns. split_node n = (S, f)
      then (case downloadFile w S f of Inl e \<Rightarrow> None | Inr b \<Rightarrow> Some b)
      else map_of acc f)
   \<and> ((\<exists>n \<in> set ns. split_node n = (S, f)) \<longrightarrow> (\<exists>b. downloadFile w S f = Inr b))"
proof (induction ns arbitrary: acc)
  case Nil
  then show ?case by simp
next
  case (Cons n ns)
  obtain sname fname where sp: "split_node n = (sname, fname)" by (cases "split_node n")
  note step = download_loop_Cons [OF sp, of w S ns acc]
  show ?case
  proof (cases "sname = S")
    case False
    with step Cons.prems have "download_loop w S ns acc = Inr files" by simp
    from Cons.IH [OF this] sp False show ?thesis by auto
  next
    case True
    with step Cons.prems obtain b where b: "downloadFile w S fname = Inr b"
      and rest: "download_loop w S ns (AList.update fname b acc) = Inr files"
      by (cases "downloadFile w S fname") auto
    from Cons.IH [OF rest] sp True b show ?thesis
      by (auto simp: update_conv')
  qed
qed

lemma download_loop_total:
  "(\<And>n f. n \<in> set ns \<Longrightarrow> split_node n = (S, f) \<Longrightarrow> \<exists>b. downloadFile w S f = Inr b)
     \<Longrightarrow> \<exists>files. download_loop w S ns acc = Inr files"
proof (induction ns arbitrary: acc)
  case Nil
  then show ?case by simp
next
  case (Cons n ns)
  obtain sname fname where sp: "split_node n = (sname, fname)" by (cases "split_node n")
  note step = download_loop_Cons [OF sp, of w S ns acc]
  have rest: "\<exists>files. download_loop w S ns acc' = Inr files" for acc'
    using Cons.prems by (intro Cons.IH) auto
  show ?case
  proof (cases "sname = S")
    case False
    with step rest show ?thesis by simp
  next
    case True
    with Cons.prems [of n fname] sp obtain b where "downloadFile w S fname = Inr b" by auto
    with step True rest show ?thesis by simp
  qed
qed

lemma download_Inr:
  "download gt w S = Inr script \<Longrightarrow>
   Name script = S \<and> download_loop w S (Tree gt) [] = Inr (Files script)"
  by (auto simp: download_def Let_def split: sum.splits if_splits)

lemma Keys_map_of: "k \<in> set (Keys m) \<longleftrightarrow> map_of m k \<noteq> None"
  by (simp add: Keys_def map_of_eq_None_iff)

lemma downloadFile_absent:
  "w (rawPrefix @ ''/'' @ S @ ''/'' @ f) = Response status body \<Longrightarrow> 400 \<le> status
     \<Longrightarrow> downloadFile w S f = Inr None"
  by (simp add: downloadFile_def)

lemma download_absent_entry:
  assumes "download gt w S = Inr script" and "n \<in> set (Tree gt)" and "split_node n = (S, f)"
    and "downloadFile w S f = Inr None"
  shows "map_of (Files script) f = Some None"
    and "f \<in> set (Keys (Files script))"
    and "at_key (Files script) f = None"
proof -
  from download_Inr [OF assms(1)] have "download_loop w S (Tree gt) [] = Inr (Files script)" by simp
  from download_loop_files [OF this, of f] assms(2-4)
  show m: "map_of (Files script) f = Some None" by auto
  then show "f \<in> set (Keys (Files script))" by (simp add: Keys_map_of)
  from m show "at_key (Files script) f = None" by (simp add: at_key_def)
qed

lemma download_keys_plain:
  assumes "download gt w S = Inr script" and "properBaseNames gt"
  shows "\<forall>k \<in> set (Keys (Files script)). plain k"
proof
  fix k assume "k \<in> set (Keys (Files script))"
  then have k: "map_of (Files script) k \<noteq> None" by (simp add: Keys_map_of)
  from download_Inr [OF assms(1)] have "download_loop w S (Tree gt) [] = Inr (Files script)" by simp
  from download_loop_files [OF this, of k] k
  obtain n where "n \<in> set (Tree gt)" "split_node n = (S, k)" by (auto split: if_splits)
  with assms(2) show "plain k" by (auto simp: properBaseNames_def list_all_iff)
qed

subsection \<open>Entries without contents\<close>

lemma download_only_corrupt:
  assumes "\<forall>n' \<in> set (Tree gt). \<forall>f'. split_node n' = (S, f') \<longrightarrow> (\<exists>b. downloadFile w S f' = Inr b)"
  shows "(\<exists>script. download gt w S = Inr script)
         \<or> download gt w S = Inl (CorruptNoReadme S) \<or> download gt w S = Inl (CorruptNoScript S)"
proof -
  from assms obtain files where "download_loop w S (Tree gt) [] = Inr files"
    using download_loop_total [of "Tree gt" S w "[]"] by blast
  then show ?thesis by (simp add: download_def Let_def)
qed

lemma copyAll_absent:
  assumes "f \<in> set (Keys (Files script))" and "at_key (Files script) f = None"
    and "set (ord (Keys (Files script))) = set (Keys (Files script))"
  shows "\<exists>e fs'. copyAll ord script dir fs = (Inl e, fs')"
  unfolding copyAll_def using assms by (intro copyAll_loop_absent [of f]) auto

text \<open>
  When every fetch of the script's entries returns and the two mandatory files come with
  contents, \<open>download\<close> returns the bundle, whatever the other fetches gave.
\<close>

lemma download_returns:
  assumes fetches: "\<And>n f. n \<in> set (Tree gt) \<Longrightarrow> split_node n = (S, f) \<Longrightarrow> \<exists>b. downloadFile w S f = Inr b"
    and readme: "\<exists>n \<in> set (Tree gt). split_node n = (S, ''README.md'')"
      "downloadFile w S ''README.md'' = Inr (Some r)"
    and src: "\<exists>n \<in> set (Tree gt). split_node n = (S, S)" "downloadFile w S S = Inr (Some x)"
  shows "\<exists>script. download gt w S = Inr script"
proof -
  from fetches obtain files where files: "download_loop w S (Tree gt) [] = Inr files"
    using download_loop_total [of "Tree gt" S w "[]"] by blast
  from download_loop_files [OF files, of "''README.md''"] readme
  have "at_key files ''README.md'' = Some r" by (simp add: at_key_def)
  moreover from download_loop_files [OF files, of S] src
  have "at_key files S = Some x" by (simp add: at_key_def)
  ultimately show ?thesis by (simp add: download_def files source_def Let_def)
qed

text \<open>
  An entry of the script's directory whose fetch has a status of 400 or above is in the
  bundle with \<open>nil\<close> contents. Copying the entry ends the process in \<open>copyFile\<close>; so
  \<open>install\<close> never completes, and \<open>upgrade\<close> never completes a copy, unless the entry is the
  configuration file that \<open>--skip-config\<close> leaves out.
\<close>

lemma absent_entry_stops_copy:
  assumes n: "n \<in> set (Tree gt)" "split_node n = (S, f)"
    and absent: "w (rawPrefix @ ''/'' @ S @ ''/'' @ f) = Response status body" "400 \<le> status"
    and ord: "\<forall>ks. set (ord ks) = set ks"
  shows "(\<forall>script. download gt w S = Inr script \<longrightarrow>
            map_of (Files script) f = Some None
            \<and> (\<forall>dest fs. copyFile script f dest fs = (Inl (BugNotInMemory f), fs)))
       \<and> fst (install ord [S] gt w cpath fs) \<noteq> Inr ()
       \<and> ((skip \<longrightarrow> f \<noteq> configName S) \<longrightarrow> fst (upgrade ord skip [S] gt w cpath fs) \<noteq> Inr Upgraded)"
proof -
  have nil: "downloadFile w S f = Inr None" using absent by (rule downloadFile_absent)
  note entry = download_absent_entry [OF _ n nil]
  have all: "\<exists>e fs'. copyAll ord script dir fs0 = (Inl e, fs')"
    if "download gt w S = Inr script" for script dir fs0
    using entry(2,3) [OF that] ord by (intro copyAll_absent) auto
  have a: "\<forall>script. download gt w S = Inr script \<longrightarrow>
            map_of (Files script) f = Some None
            \<and> (\<forall>dest fs. copyFile script f dest fs = (Inl (BugNotInMemory f), fs))"
    using entry(1,3) by (auto simp: copyFile_absent)
  have c: "fst (install ord [S] gt w cpath fs) \<noteq> Inr ()"
  proof (cases "download gt w S")
    case (Inl e)
    then show ?thesis
      by (simp add: install_def Let_def split: sum.splits option.splits)
  next
    case (Inr script)
    from all [OF Inr] show ?thesis
      by (simp add: install_def Let_def Inr split: sum.splits option.splits prod.splits)
        (metis Inl_Inr_False Pair_inject)
  qed
  have d: "fst (upgrade ord skip [S] gt w cpath fs) \<noteq> Inr Upgraded" if sk: "skip \<longrightarrow> f \<noteq> configName S"
  proof (cases "download gt w S")
    case (Inl e)
    then show ?thesis
      by (simp add: upgrade_def Let_def split: sum.splits option.splits)
  next
    case (Inr script)
    have skl: "\<exists>e fs'. skipConfig_loop script S (Join cpath S) (ord (Keys (Files script))) fs = (Inl e, fs')"
      if skip
      unfolding skipConfig_loop_filter
      using entry(2,3) [OF Inr] ord sk that by (intro copyAll_loop_absent [of f]) auto
    from all [OF Inr, of "Join cpath S" fs] obtain e1 f1 where
      ca: "copyAll ord script (Join cpath S) fs = (Inl e1, f1)" by blast
    show ?thesis
    proof (cases skip)
      case True
      from skl [OF True] obtain e2 f2 where
        "skipConfig_loop script S (Join cpath S) (ord (Keys (Files script))) fs = (Inl e2, f2)" by blast
      with True show ?thesis
        by (simp add: upgrade_def Let_def Inr split: sum.splits)
    next
      case False
      with ca show ?thesis
        by (simp add: upgrade_def Let_def Inr split: sum.splits)
    qed
  qed
  from a c d show ?thesis by blast
qed

text \<open>
  C4. The sub-directory \<open>sub\<close> of the script \<open>a\<close> is listed in the tree and its fetch gives
  404. \<open>download\<close> returns the bundle, with \<open>nil\<close> for the entry; \<open>install\<close> and \<open>upgrade\<close>
  then end with the error of \<open>copyFile\<close>, after the files visited before have been written.
  Where the absent file is the configuration file, \<open>upgrade\<close> with \<open>--skip-config\<close> passes it
  over and completes.
\<close>

theorem absent_file_is_fatal:
  "downloadFile (serve [(''a'', ''README.md'', ''r''), (''a'', ''a'', ''x'')]) ''a'' ''sub'' = Inr None
   \<and> download (tree_of [''a/README.md'', ''a/a'', ''a/sub''])
        (serve [(''a'', ''README.md'', ''r''), (''a'', ''a'', ''x'')]) ''a''
       = Inr \<lparr>Name = ''a'', Files = [(''README.md'', Some ''r''), (''a'', Some ''x''), (''sub'', None)]\<rparr>
   \<and> install id [''a''] (tree_of [''a/README.md'', ''a/a'', ''a/sub''])
        (serve [(''a'', ''README.md'', ''r''), (''a'', ''a'', ''x'')]) ''/s''
        \<lparr>nodes = [(''/s'', Dir 493)], umask = 18, refused = [], superuser = False\<rparr>
       = (Inl (BugNotInMemory ''sub''),
          \<lparr>nodes = [(''/s'', Dir 493), (''/s/a'', Dir (ModeDir OR 493)),
                    (''/s/a/README.md'', File ''r'' 420), (''/s/a/a'', File ''x'' 420)],
           umask = 18, refused = [], superuser = False\<rparr>)
   \<and> upgrade id False [''a''] (tree_of [''a/README.md'', ''a/a'', ''a/sub''])
        (serve [(''a'', ''README.md'', ''r''), (''a'', ''a'', ''x'')]) ''/s''
        \<lparr>nodes = [(''/s'', Dir 493), (''/s/a'', Dir 493)], umask = 18, refused = [], superuser = False\<rparr>
       = (Inl (BugNotInMemory ''sub''),
          \<lparr>nodes = [(''/s'', Dir 493), (''/s/a'', Dir 493),
                    (''/s/a/README.md'', File ''r'' 420), (''/s/a/a'', File ''x'' 420)],
           umask = 18, refused = [], superuser = False\<rparr>)
   \<and> download (tree_of [''a/README.md'', ''a/a'', ''a/a.cfg''])
        (serve [(''a'', ''README.md'', ''r''), (''a'', ''a'', ''x'')]) ''a''
       = Inr \<lparr>Name = ''a'', Files = [(''README.md'', Some ''r''), (''a'', Some ''x''), (''a.cfg'', None)]\<rparr>
   \<and> upgrade id True [''a''] (tree_of [''a/README.md'', ''a/a'', ''a/a.cfg''])
        (serve [(''a'', ''README.md'', ''r''), (''a'', ''a'', ''x'')]) ''/s''
        \<lparr>nodes = [(''/s'', Dir 493), (''/s/a'', Dir 493)], umask = 18, refused = [], superuser = False\<rparr>
       = (Inr Upgraded,
          \<lparr>nodes = [(''/s'', Dir 493), (''/s/a'', Dir 493),
                    (''/s/a/README.md'', File ''r'' 420), (''/s/a/a'', File ''x'' 420)],
           umask = 18, refused = [], superuser = False\<rparr>)"
proof -
  let ?gt = "tree_of [''a/README.md'', ''a/a'', ''a/sub'']"
  let ?gc = "tree_of [''a/README.md'', ''a/a'', ''a/a.cfg'']"
  let ?w = "serve [(''a'', ''README.md'', ''r''), (''a'', ''a'', ''x'')]"
  let ?empty = "\<lparr>nodes = [(''/s'', Dir 493)], umask = 18, refused = [], superuser = False\<rparr>"
  let ?inst = "\<lparr>nodes = [(''/s'', Dir 493), (''/s/a'', Dir 493)], umask = 18, refused = [],
                superuser = False\<rparr>"
  have f: "downloadFile ?w ''a'' ''sub'' = Inr None" by (simp add: fetch_defs)
  have dl: "download ?gt ?w ''a''
       = Inr \<lparr>Name = ''a'', Files = [(''README.md'', Some ''r''), (''a'', Some ''x''), (''sub'', None)]\<rparr>"
    by (simp add: copy_defs catalog_defs fetch_defs)
  have dc: "download ?gc ?w ''a''
       = Inr \<lparr>Name = ''a'', Files = [(''README.md'', Some ''r''), (''a'', Some ''x''), (''a.cfg'', None)]\<rparr>"
    by (simp add: copy_defs catalog_defs fetch_defs)
  have ex: "scriptExists ?gt ''a''" "scriptExists ?gc ''a''" by (simp_all add: catalog_defs)
  have l0: "getLocalTree ''/s'' ?empty = Inr []"
    by (simp add: fs_defs SplitPath_def Clean_def clean_step_def slash_def)
  have l1: "getLocalTree ''/s'' ?inst = Inr [\<lparr>ScriptName = ''a'', LocalPath = ''/s/a''\<rparr>]"
    by (simp add: fs_defs SplitPath_def Clean_def clean_step_def slash_def)
  have j: "Join ''/s'' ''a'' = ''/s/a''" "Join ''/s/a'' ''README.md'' = ''/s/a/README.md''"
    "Join ''/s/a'' ''a'' = ''/s/a/a''" "Join ''/s/a'' ''sub'' = ''/s/a/sub''"
    "Join ''/s/a'' ''a.cfg'' = ''/s/a/a.cfg''"
    by (simp_all add: Join_def Clean_def clean_step_def slash_def)
  have p: "parent ''/s/a'' = ''/s''" "parent ''/s/a/README.md'' = ''/s/a''" "parent ''/s/a/a'' = ''/s/a''"
    by (simp_all add: parent_def SplitPath_def Clean_def clean_step_def slash_def)
  have m: "Perm 511 AND (- 19 :: FileMode) = 493" by (simp add: Perm_def)
  have i: "install id [''a''] ?gt ?w ''/s'' ?empty
       = (Inl (BugNotInMemory ''sub''),
          \<lparr>nodes = [(''/s'', Dir 493), (''/s/a'', Dir (ModeDir OR 493)),
                    (''/s/a/README.md'', File ''r'' 420), (''/s/a/a'', File ''x'' 420)],
           umask = 18, refused = [], superuser = False\<rparr>)"
    by (simp add: install_def Let_def ex l0 dl j p m copyAll_def copyFile_def at_key_def Keys_def
        os_Mkdir_def os_Create_def os_Write_def lookup_def refuses_def store_def)
  have u: "upgrade id False [''a''] ?gt ?w ''/s'' ?inst
       = (Inl (BugNotInMemory ''sub''),
          \<lparr>nodes = [(''/s'', Dir 493), (''/s/a'', Dir 493),
                    (''/s/a/README.md'', File ''r'' 420), (''/s/a/a'', File ''x'' 420)],
           umask = 18, refused = [], superuser = False\<rparr>)"
    by (simp add: upgrade_def Let_def ex l1 dl j p copyAll_def copyFile_def at_key_def Keys_def
        hasConfig_def config_def configName_def os_Stat_def
        os_Mkdir_def os_Create_def os_Write_def lookup_def refuses_def store_def)
  have k: "upgrade id True [''a''] ?gc ?w ''/s'' ?inst
       = (Inr Upgraded,
          \<lparr>nodes = [(''/s'', Dir 493), (''/s/a'', Dir 493),
                    (''/s/a/README.md'', File ''r'' 420), (''/s/a/a'', File ''x'' 420)],
           umask = 18, refused = [], superuser = False\<rparr>)"
    by (simp add: upgrade_def Let_def ex l1 dc j p copyFile_def at_key_def Keys_def
        configName_def os_Create_def os_Write_def lookup_def refuses_def store_def)
  from f dl i u dc k show ?thesis by - (intro conjI, assumption+)
qed

theorem absent_file_is_fatal_witness:
  "fst (install id [''a''] (tree_of [''a/README.md'', ''a/a'', ''a/sub''])
        (serve [(''a'', ''README.md'', ''r''), (''a'', ''a'', ''x'')]) ''/s''
        \<lparr>nodes = [(''/s'', Dir 493)], umask = 18, refused = [], superuser = False\<rparr>) \<noteq> Inr ()
   \<and> fst (upgrade id False [''a''] (tree_of [''a/README.md'', ''a/a'', ''a/sub''])
        (serve [(''a'', ''README.md'', ''r''), (''a'', ''a'', ''x'')]) ''/s''
        \<lparr>nodes = [(''/s'', Dir 493), (''/s/a'', Dir 493)], umask = 18, refused = [], superuser = False\<rparr>)
       \<noteq> Inr Upgraded"
  using absent_file_is_fatal by simp

subsection \<open>The decision of \<open>upgrade\<close>\<close>

lemma Join_inj_on: "\<forall>k \<in> A. plain k \<Longrightarrow> inj_on (Join dir) A"
  by (auto simp: inj_on_def dest: Join_inj)

lemma upgrade_unfold:
  assumes "scriptExists gt S" and "getLocalTree cpath fs = Inr lt" and "localScriptExists lt S"
    and "download gt w S = Inr script"
  shows "upgrade ord skip [S] gt w cpath fs =
    (let scriptDir = Join cpath S; lnode = \<lparr>ScriptName = S, LocalPath = scriptDir\<rparr>
     in if skip then
          (case copyAll_loop script scriptDir
                  (filter (\<lambda>k. k \<noteq> configName S) (ord (Keys (Files script)))) fs of
             (Inl e, fs') \<Rightarrow> (Inl e, fs')
           | (Inr u, fs') \<Rightarrow> (Inr Upgraded, fs'))
        else if \<not> hasConfig lnode fs \<or> config script = None then
          (case copyAll ord script scriptDir fs of
             (Inl e, fs') \<Rightarrow> (Inl e, fs')
           | (Inr u, fs') \<Rightarrow> (Inr Upgraded, fs'))
        else
          (case readConfig lnode fs of
             Inl e \<Rightarrow> (Inl e, fs)
           | Inr localConfig \<Rightarrow>
               if bytes_Equal localConfig (config script) then
                 (case copyAll ord script scriptDir fs of
                    (Inl e, fs') \<Rightarrow> (Inl e, fs')
                  | (Inr u, fs') \<Rightarrow> (Inr Upgraded, fs'))
               else (Inr (ManualInterventionRequired (Join scriptDir (configName S))), fs)))"
  using assms by (simp add: upgrade_def Let_def skipConfig_loop_filter cong: sum.case_cong if_cong)




subsection \<open>Upgrading twice\<close>

lemma upgrade_Upgraded_pre:
  assumes "upgrade ord skip [S] gt w cpath fs = (Inr Upgraded, fs1)"
  shows "scriptExists gt S \<and> (\<exists>lt. getLocalTree cpath fs = Inr lt \<and> localScriptExists lt S)"
  using assms by (simp add: upgrade_def split: sum.splits if_splits)

lemma new_file_reopens: "u AND 384 = 0 \<Longrightarrow> (438 AND NOT u) AND 384 = (384 :: FileMode)"
proof -
  assume u: "u AND 384 = 0"
  have "(438 AND NOT u) AND 384 = (438 AND 384) AND NOT u"
    by (simp add: and.assoc and.commute and.left_commute)
  also have "\<dots> = 384 AND NOT u" by simp
  also have "\<dots> = 384 XOR (384 AND u)"
    by (rule bit_word_eqI) (auto simp: bit_simps)
  also have "\<dots> = 384" using u by (simp add: and.commute)
  finally show ?thesis .
qed

text \<open>
  C8. For a tree whose base names are proper names: when \<open>upgrade\<close> with \<open>--skip-config\<close>
  has completed, a second run on the file system it left, against the same tree and the
  same server, in whatever order it visits the files, leaves that file system as it is,
  however the run ends: every file is what the first run made it. The second run completes
  when the user is the superuser or the umask leaves the owner's read and write bits (octal
  600) to new files; otherwise it can end at a file that the first run created and that
  cannot be opened again. After the first run every file of the bundle but the
  configuration file has the bundle's contents, and the node at the path of the local
  configuration file is what it was before the first run.
\<close>

theorem upgrade_skip_config_twice:
  assumes dl: "download gt w S = Inr script"
    and proper: "properBaseNames gt"
    and ord1: "set (ord1 (Keys (Files script))) = set (Keys (Files script))"
    and ord2: "set (ord2 (Keys (Files script))) = set (Keys (Files script))"
    and dir: "dir = Join cpath S"
    and cfg: "cfg = Join dir (configName S)"
    and run1: "upgrade ord1 True [S] gt w cpath fs = (Inr Upgraded, fs1)"
  shows "(\<exists>r2. upgrade ord2 True [S] gt w cpath fs1 = (r2, fs1)
            \<and> (superuser fs \<or> umask fs AND 384 = 0 \<longrightarrow> r2 = Inr Upgraded))
       \<and> lookup fs1 cfg = lookup fs cfg
       \<and> (\<forall>k \<in> set (Keys (Files script)). k \<noteq> configName S \<longrightarrow>
            (\<exists>c m. at_key (Files script) k = Some c \<and> lookup fs1 (Join dir k) = Some (File c m)))"
proof -
  let ?keys = "Keys (Files script)"
  let ?ks1 = "filter (\<lambda>k. k \<noteq> configName S) (ord1 ?keys)"
  let ?ks2 = "filter (\<lambda>k. k \<noteq> configName S) (ord2 ?keys)"
  let ?ok = "superuser fs \<or> umask fs AND 384 = 0"
  from upgrade_Upgraded_pre [OF run1] obtain lt where
    ex: "scriptExists gt S" and lt: "getLocalTree cpath fs = Inr lt" "localScriptExists lt S"
    by blast
  note unf1 = upgrade_unfold [OF ex lt dl, of ord1 True, unfolded Let_def, folded dir]
  from run1 obtain u where loop1: "copyAll_loop script dir ?ks1 fs = (Inr u, fs1)"
    unfolding unf1 by (auto split: prod.splits sum.splits)
  note frame = copyAll_loop_frame [OF loop1]
  from copyAll_loop_env [OF loop1] have env: "umask fs1 = umask fs" "superuser fs1 = superuser fs"
    by simp_all
  have pk1: "\<forall>k \<in> set ?ks1. plain k"
    using download_keys_plain [OF dl proper] ord1 by simp
  have pc: "plain (configName S)"
    using installed_name_no_slash [OF lt] by (rule plain_configName)
  \<comment> \<open>The first run.\<close>
  have "\<And>k. k \<in> set ?ks1 \<Longrightarrow> Join dir k \<noteq> cfg"
    using pk1 pc unfolding cfg by (auto dest: Join_inj)
  from frame(2) [OF this] have same: "lookup fs1 cfg = lookup fs cfg" by simp
  have inj: "inj_on (Join dir) (set ?ks1)" using pk1 by (rule Join_inj_on)
  have done1: "\<exists>c m. at_key (Files script) k = Some c \<and> lookup fs1 (Join dir k) = Some (File c m)
                 \<and> \<not> refuses fs1 OpCreate (Join dir k) \<and> \<not> refuses fs1 OpWrite (Join dir k)
                 \<and> (?ok \<longrightarrow> reopens fs1 m)"
    if "k \<in> set ?keys" "k \<noteq> configName S" for k
  proof -
    from that ord1 have "k \<in> set ?ks1" by simp
    from copyAll_loop_Inr [OF loop1 inj this] obtain c m where cm:
      "at_key (Files script) k = Some c" "lookup fs1 (Join dir k) = Some (File c m)"
      "\<not> refuses fs OpCreate (Join dir k)" "\<not> refuses fs OpWrite (Join dir k)"
      "reopens fs m \<or> m = 438 AND NOT (umask fs)" by blast
    have "reopens fs1 m" if ok: ?ok
    proof (cases "reopens fs m")
      case True
      with env show ?thesis by (simp add: reopens_def)
    next
      case False
      with cm(5) have m: "m = 438 AND NOT (umask fs)" by simp
      from False ok have "umask fs AND 384 = 0" by (auto simp: reopens_def)
      from new_file_reopens [OF this] m show ?thesis by (simp add: reopens_def)
    qed
    with cm frame(1) show ?thesis by (auto simp: refuses_def)
  qed
  \<comment> \<open>The local tree after the first run.\<close>
  from lt(1) have "\<not> refuses fs OpOpen cpath \<and> \<not> refuses fs OpReaddir cpath \<and> is_dir (lookup fs cpath)"
    using getLocalTree_Inr_iff [of cpath fs] by blast
  with frame(1) frame(3) [of cpath]
  have "\<not> refuses fs1 OpOpen cpath \<and> \<not> refuses fs1 OpReaddir cpath \<and> is_dir (lookup fs1 cpath)"
    by (simp add: refuses_def)
  then obtain lt1 where lt1: "getLocalTree cpath fs1 = Inr lt1"
    using getLocalTree_Inr_iff [of cpath fs1] by blast
  have "localScriptExists lt1 S"
    using lt(2) frame(3) [of "Join cpath S"]
    unfolding getLocalTree_exists [OF lt(1)] getLocalTree_exists [OF lt1] by auto
  note unf2 = upgrade_unfold [OF ex lt1 this dl, of ord2 True, unfolded Let_def, folded dir]
  \<comment> \<open>The second run writes what is there.\<close>
  have "\<exists>r. copyAll_loop script dir ?ks2 fs1 = (r, fs1) \<and> (?ok \<longrightarrow> r = Inr ())"
  proof (rule copyAll_loop_rerun)
    fix k assume "k \<in> set ?ks2"
    with ord2 have "k \<in> set ?keys" "k \<noteq> configName S" by auto
    then show "\<exists>c m. at_key (Files script) k = Some c \<and> lookup fs1 (Join dir k) = Some (File c m)
                 \<and> \<not> refuses fs1 OpCreate (Join dir k) \<and> \<not> refuses fs1 OpWrite (Join dir k)
                 \<and> (?ok \<longrightarrow> reopens fs1 m)"
      by (rule done1)
  qed
  then obtain r where r: "copyAll_loop script dir ?ks2 fs1 = (r, fs1)" "?ok \<longrightarrow> r = Inr ()"
    by blast
  have second: "\<exists>r2. upgrade ord2 True [S] gt w cpath fs1 = (r2, fs1) \<and> (?ok \<longrightarrow> r2 = Inr Upgraded)"
  proof (cases r)
    case (Inl e)
    with r show ?thesis by (auto simp: unf2)
  next
    case (Inr u2)
    with r show ?thesis by (simp add: unf2)
  qed
  from done1 have "\<forall>k \<in> set ?keys. k \<noteq> configName S \<longrightarrow>
            (\<exists>c m. at_key (Files script) k = Some c \<and> lookup fs1 (Join dir k) = Some (File c m))"
    by blast
  with second same show ?thesis by blast
qed

theorem upgrade_skip_config_twice_witness:
  "download (tree_of [''a/README.md'', ''a/a'', ''a/a.cfg''])
        (serve [(''a'', ''README.md'', ''r''), (''a'', ''a'', ''x''), (''a'', ''a.cfg'', ''n'')]) ''a''
       = Inr \<lparr>Name = ''a'',
              Files = [(''README.md'', Some ''r''), (''a'', Some ''x''), (''a.cfg'', Some ''n'')]\<rparr>
   \<and> properBaseNames (tree_of [''a/README.md'', ''a/a'', ''a/a.cfg''])
   \<and> set (rev [''README.md'', ''a'', ''a.cfg'']) = set [''README.md'', ''a'', ''a.cfg'']
   \<and> ''/s/a'' = Join ''/s'' ''a'' \<and> ''/s/a/a.cfg'' = Join ''/s/a'' (configName ''a'')
   \<and> upgrade id True [''a''] (tree_of [''a/README.md'', ''a/a'', ''a/a.cfg''])
        (serve [(''a'', ''README.md'', ''r''), (''a'', ''a'', ''x''), (''a'', ''a.cfg'', ''n'')]) ''/s''
        \<lparr>nodes = [(''/s'', Dir 493), (''/s/a'', Dir 493), (''/s/a/a.cfg'', File ''o'' 420),
                  (''/s/a/a'', File ''old'' 493)],
         umask = 18, refused = [], superuser = False\<rparr>
       = (Inr Upgraded,
          \<lparr>nodes = [(''/s'', Dir 493), (''/s/a'', Dir 493), (''/s/a/a.cfg'', File ''o'' 420),
                    (''/s/a/a'', File ''x'' 493), (''/s/a/README.md'', File ''r'' 420)],
           umask = 18, refused = [], superuser = False\<rparr>)
   \<and> (18 :: FileMode) AND 384 = 0
   \<and> upgrade rev True [''a''] (tree_of [''a/README.md'', ''a/a'', ''a/a.cfg''])
        (serve [(''a'', ''README.md'', ''r''), (''a'', ''a'', ''x''), (''a'', ''a.cfg'', ''n'')]) ''/s''
        \<lparr>nodes = [(''/s'', Dir 493), (''/s/a'', Dir 493), (''/s/a/a.cfg'', File ''o'' 420),
                    (''/s/a/a'', File ''x'' 493), (''/s/a/README.md'', File ''r'' 420)],
           umask = 18, refused = [], superuser = False\<rparr>
       = (Inr Upgraded,
          \<lparr>nodes = [(''/s'', Dir 493), (''/s/a'', Dir 493), (''/s/a/a.cfg'', File ''o'' 420),
                    (''/s/a/a'', File ''x'' 493), (''/s/a/README.md'', File ''r'' 420)],
           umask = 18, refused = [], superuser = False\<rparr>)
   \<and> upgrade id True [''a''] (tree_of [''a/README.md'', ''a/a'', ''a/a.cfg''])
        (serve [(''a'', ''README.md'', ''r''), (''a'', ''a'', ''x''), (''a'', ''a.cfg'', ''n'')]) ''/s''
        \<lparr>nodes = [(''/s'', Dir 493), (''/s/a'', Dir 493), (''/s/a/a.cfg'', File ''o'' 420)],
         umask = 191, refused = [], superuser = False\<rparr>
       = (Inr Upgraded,
          \<lparr>nodes = [(''/s'', Dir 493), (''/s/a'', Dir 493), (''/s/a/a.cfg'', File ''o'' 420),
                    (''/s/a/README.md'', File ''r'' 256), (''/s/a/a'', File ''x'' 256)],
           umask = 191, refused = [], superuser = False\<rparr>)
   \<and> upgrade rev True [''a''] (tree_of [''a/README.md'', ''a/a'', ''a/a.cfg''])
        (serve [(''a'', ''README.md'', ''r''), (''a'', ''a'', ''x''), (''a'', ''a.cfg'', ''n'')]) ''/s''
        \<lparr>nodes = [(''/s'', Dir 493), (''/s/a'', Dir 493), (''/s/a/a.cfg'', File ''o'' 420),
                    (''/s/a/README.md'', File ''r'' 256), (''/s/a/a'', File ''x'' 256)],
           umask = 191, refused = [], superuser = False\<rparr>
       = (Inl (CouldNotCreateFile ''/s/a/a''),
          \<lparr>nodes = [(''/s'', Dir 493), (''/s/a'', Dir 493), (''/s/a/a.cfg'', File ''o'' 420),
                    (''/s/a/README.md'', File ''r'' 256), (''/s/a/a'', File ''x'' 256)],
           umask = 191, refused = [], superuser = False\<rparr>)"
proof -
  let ?gt = "tree_of [''a/README.md'', ''a/a'', ''a/a.cfg'']"
  let ?w = "serve [(''a'', ''README.md'', ''r''), (''a'', ''a'', ''x''), (''a'', ''a.cfg'', ''n'')]"
  let ?before = "\<lparr>nodes = [(''/s'', Dir 493), (''/s/a'', Dir 493), (''/s/a/a.cfg'', File ''o'' 420),
                  (''/s/a/a'', File ''old'' 493)],
         umask = 18, refused = [], superuser = False\<rparr>"
  let ?after = "\<lparr>nodes = [(''/s'', Dir 493), (''/s/a'', Dir 493), (''/s/a/a.cfg'', File ''o'' 420),
                    (''/s/a/a'', File ''x'' 493), (''/s/a/README.md'', File ''r'' 420)],
           umask = 18, refused = [], superuser = False\<rparr>"
  let ?tight = "\<lparr>nodes = [(''/s'', Dir 493), (''/s/a'', Dir 493), (''/s/a/a.cfg'', File ''o'' 420)],
         umask = 191, refused = [], superuser = False\<rparr>"
  let ?shut = "\<lparr>nodes = [(''/s'', Dir 493), (''/s/a'', Dir 493), (''/s/a/a.cfg'', File ''o'' 420),
                    (''/s/a/README.md'', File ''r'' 256), (''/s/a/a'', File ''x'' 256)],
           umask = 191, refused = [], superuser = False\<rparr>"
  let ?lt = "[\<lparr>ScriptName = ''a'', LocalPath = ''/s/a''\<rparr>]"
  let ?script = "\<lparr>Name = ''a'',
              Files = [(''README.md'', Some ''r''), (''a'', Some ''x''), (''a.cfg'', Some ''n'')]\<rparr>"
  have ex: "scriptExists ?gt ''a''" by (simp add: catalog_defs)
  have l: "getLocalTree ''/s'' ?before = Inr ?lt"
    by (simp add: fs_defs SplitPath_def Clean_def clean_step_def slash_def)
  have lt: "getLocalTree ''/s'' ?tight = Inr ?lt"
    by (simp add: fs_defs SplitPath_def Clean_def clean_step_def slash_def)
  have ls: "getLocalTree ''/s'' ?shut = Inr ?lt"
    by (simp add: fs_defs SplitPath_def Clean_def clean_step_def slash_def)
  have dl: "download ?gt ?w ''a'' = Inr ?script"
    by (simp add: copy_defs catalog_defs fetch_defs)
  have pl: "properBaseNames ?gt"
    by (simp add: properBaseNames_def catalog_defs plain_def)
  have o1: "set (id (Keys (Files ?script))) = set (Keys (Files ?script))" by simp
  have o2: "set (rev (Keys (Files ?script))) = set (Keys (Files ?script))" by simp
  have j: "''/s/a'' = Join ''/s'' ''a''" "''/s/a/a.cfg'' = Join ''/s/a'' (configName ''a'')"
    by (simp_all add: path_defs configName_def)
  have j': "Join ''/s/a'' ''README.md'' = ''/s/a/README.md''" "Join ''/s/a'' ''a'' = ''/s/a/a''"
    "Join ''/s/a'' ''a.cfg'' = ''/s/a/a.cfg''"
    "parent ''/s/a/README.md'' = ''/s/a''" "parent ''/s/a/a'' = ''/s/a''"
    "parent ''/s/a/a.cfg'' = ''/s/a''"
    by (simp_all add: path_defs)
  have u1: "upgrade id True [''a''] ?gt ?w ''/s'' ?before = (Inr Upgraded, ?after)"
    by (simp add: upgrade_def Let_def ex l dl j [symmetric] j' file_defs)
  have v1: "upgrade id True [''a''] ?gt ?w ''/s'' ?tight = (Inr Upgraded, ?shut)"
    by (simp add: upgrade_def Let_def ex lt dl j [symmetric] j' file_defs)
  have v2: "upgrade rev True [''a''] ?gt ?w ''/s'' ?shut
              = (Inl (CouldNotCreateFile ''/s/a/a''), ?shut)"
    by (simp add: upgrade_def Let_def ex ls dl j [symmetric] j' file_defs)
  have m: "(18 :: FileMode) AND 384 = 0" by simp
  note t = upgrade_skip_config_twice [where ?ord1.0 = id and ?ord2.0 = rev
      and cfg = "''/s/a/a.cfg''", OF dl pl o1 o2 j u1]
  with m have u2: "upgrade rev True [''a''] ?gt ?w ''/s'' ?after = (Inr Upgraded, ?after)"
    by auto
  note t' = upgrade_skip_config_twice [where ?ord1.0 = id and ?ord2.0 = rev
      and cfg = "''/s/a/a.cfg''", OF dl pl o1 o2 j v1]
  then have "\<exists>r2. upgrade rev True [''a''] ?gt ?w ''/s'' ?shut = (r2, ?shut)" by blast
  have o2': "set (rev [''README.md'', ''a'', ''a.cfg'']) = set [''README.md'', ''a'', ''a.cfg'']"
    by (rule set_rev)
  from dl pl o2' j u1 m u2 v1 v2 show ?thesis by - (intro conjI, assumption+)
qed

end
